theory Spec2Isabelle
  imports Main "HOL-Library.Word"
begin

unbundle bit_operations_syntax

section \<open>The IoAwaitable protocol of d4003-io-awaitables.cpp\<close>

text \<open>
  The development embeds the library part of the file (\<open>executor_ref\<close>, \<open>io_env\<close>,
  \<open>io_awaitable_support\<close>, \<open>task\<close>, \<open>run_sync\<close>) and the demonstration coroutines
  (\<open>immediate_value\<close>, \<open>compute\<close>, \<open>parent_task\<close>, \<open>void_task\<close>).

  Addresses are natural numbers; a nullable pointer is an \<open>option\<close> (\<open>None\<close> is
  \<open>nullptr\<close>); a data member \<open>m_\<close> of the source is the field \<open>m_'\<close>.
  Sizes are \<open>std::size_t\<close> on an LP64 platform: 64-bit words, with
  \<open>alignof(void*) = sizeof(void*) = 8\<close> and \<open>alignof(std::max_align_t) = 16\<close>.
  Whatever is undefined behaviour in C++ (dereferencing a null pointer, reading an empty
  \<open>optional\<close>, resuming or destroying a frame that is not suspended, overflow of an
  \<open>int\<close>, which is 32 bits wide) is the error \<open>UndefinedBehaviour\<close>; an exception that
  leaves \<open>run_sync\<close> or \<open>await_resume\<close> is the error \<open>Rethrown\<close>.
\<close>

subsection \<open>Basic types\<close>

type_synonym addr = nat

type_synonym size_t = "64 word"

datatype exn = Exn nat

datatype error = Rethrown exn | UndefinedBehaviour | OutOfFuel

text \<open>\<open>std::coroutine_handle<>\<close>: null, the no-op coroutine, or the address of a frame.\<close>

datatype handle = Null | Noop | Frame addr

subsection \<open>executor_ref\<close>

text \<open>
  Of the dispatch table only \<open>equals\<close> matters here. A table is identified by its
  address (\<open>vt_\<close> is a pointer), one table per wrapped concrete type; \<open>vtable_for\<close>
  builds the \<open>equals\<close> entry of the table of a concrete type from the objects in memory
  and the type's own \<open>operator==\<close>.
\<close>

record executor_vtable =
  equals :: "addr option \<Rightarrow> addr option \<Rightarrow> error + bool"

definition vtable_for :: "(addr \<Rightarrow> 'ex option) \<Rightarrow> ('ex \<Rightarrow> 'ex \<Rightarrow> bool) \<Rightarrow> executor_vtable" where
  "vtable_for obj eq =
     \<lparr>equals = (\<lambda>a b.
        case a of None \<Rightarrow> Inl UndefinedBehaviour
        | Some pa \<Rightarrow> (case b of None \<Rightarrow> Inl UndefinedBehaviour
          | Some pb \<Rightarrow> (case obj pa of None \<Rightarrow> Inl UndefinedBehaviour
            | Some x \<Rightarrow> (case obj pb of None \<Rightarrow> Inl UndefinedBehaviour
              | Some y \<Rightarrow> Inr (eq x y)))))\<rparr>"

record executor_ref =
  ex_' :: "addr option"
  vt_' :: "addr option"

definition executor_ref_default :: executor_ref where
  "executor_ref_default = \<lparr>ex_' = None, vt_' = None\<rparr>"

text \<open>The converting constructor: the address of the executor and of its type's table.\<close>

definition executor_ref_of :: "addr \<Rightarrow> addr \<Rightarrow> executor_ref" where
  "executor_ref_of ex vt = \<lparr>ex_' = Some ex, vt_' = Some vt\<rparr>"

definition executor_ref_bool :: "executor_ref \<Rightarrow> bool" where
  "executor_ref_bool e = (ex_' e \<noteq> None)"

text \<open>\<open>executor_ref::operator==\<close>; \<open>vts\<close> is the memory holding the dispatch tables.\<close>

definition executor_ref_eq ::
  "(addr \<Rightarrow> executor_vtable option) \<Rightarrow> executor_ref \<Rightarrow> executor_ref \<Rightarrow> error + bool" where
  "executor_ref_eq vts a other =
     (if ex_' a = ex_' other then Inr True
      else if vt_' a \<noteq> vt_' other then Inr False
      else (case vt_' a of None \<Rightarrow> Inl UndefinedBehaviour
            | Some v \<Rightarrow> (case vts v of None \<Rightarrow> Inl UndefinedBehaviour
                         | Some t \<Rightarrow> equals t (ex_' a) (ex_' other))))"

text \<open>\<open>inline_executor\<close> and its equality.\<close>

record inline_executor =
  ctx_' :: "addr option"

definition inline_executor_eq :: "inline_executor \<Rightarrow> inline_executor \<Rightarrow> bool" where
  "inline_executor_eq a other = (ctx_' a = ctx_' other)"

text \<open>
  The objects in memory: \<open>obj v p\<close> is the executor of the concrete type whose table
  lives at \<open>v\<close>, found at address \<open>p\<close> (two objects of different types may share an
  address, as an object and its first member do); \<open>eq v\<close> is that type's
  \<open>operator==\<close>. \<open>tables\<close> is the memory holding \<open>detail::vtable_for<Ex>\<close> for every
  type.
\<close>

definition tables ::
  "(addr \<Rightarrow> addr \<Rightarrow> 'ex option) \<Rightarrow> (addr \<Rightarrow> 'ex \<Rightarrow> 'ex \<Rightarrow> bool) \<Rightarrow> addr \<Rightarrow> executor_vtable option" where
  "tables obj eq v = Some (vtable_for (obj v) (eq v))"

text \<open>
  A handle is well formed when it is one the constructors build: default constructed, or
  wrapping a live object together with the table of that object's type.
\<close>

definition wf_executor_ref :: "(addr \<Rightarrow> addr \<Rightarrow> 'ex option) \<Rightarrow> executor_ref \<Rightarrow> bool" where
  "wf_executor_ref obj e =
     (case ex_' e of None \<Rightarrow> vt_' e = None
      | Some p \<Rightarrow> (case vt_' e of None \<Rightarrow> False | Some v \<Rightarrow> obj v p \<noteq> None))"

text \<open>The concrete type's equality on the two wrapped values (both of the type of \<open>a\<close>).\<close>

definition concrete_equal ::
  "(addr \<Rightarrow> addr \<Rightarrow> 'ex option) \<Rightarrow> (addr \<Rightarrow> 'ex \<Rightarrow> 'ex \<Rightarrow> bool) \<Rightarrow> executor_ref \<Rightarrow> executor_ref \<Rightarrow> bool" where
  "concrete_equal obj eq a b =
     (case (vt_' a, ex_' a, ex_' b) of
        (Some v, Some pa, Some pb) \<Rightarrow>
          (case (obj v pa, obj v pb) of (Some x, Some y) \<Rightarrow> eq v x y | _ \<Rightarrow> False)
      | _ \<Rightarrow> False)"

subsection \<open>io_env\<close>

text \<open>
  A \<open>std::stop_token\<close> is the identity of its stop state, if it has one; a
  \<open>std::pmr::memory_resource*\<close> is the identity of the resource, or null.
\<close>

type_synonym stop_token = "nat option"

type_synonym memory_resource = nat

record io_env =
  executor :: executor_ref
  stop_token :: stop_token
  allocator :: "memory_resource option"

subsection \<open>The promise: io_awaitable_support, task_return_base and promise_type\<close>

record promise_type =
  env_' :: "addr option"
  cont_' :: handle
  ep_' :: "exn option"
  result_' :: "int option"

text \<open>A freshly constructed promise (the default member initialisers).\<close>

definition promise_init :: promise_type where
  "promise_init = \<lparr>env_' = None, cont_' = Noop, ep_' = None, result_' = None\<rparr>"

definition set_continuation :: "handle \<Rightarrow> promise_type \<Rightarrow> promise_type" where
  "set_continuation cont p = p\<lparr>cont_' := cont\<rparr>"

text \<open>\<open>std::exchange(cont_', std::noop_coroutine())\<close>: the old value and the updated promise.\<close>

definition continuation :: "promise_type \<Rightarrow> handle \<times> promise_type" where
  "continuation p = (cont_' p, p\<lparr>cont_' := Noop\<rparr>)"

definition set_environment :: "addr option \<Rightarrow> promise_type \<Rightarrow> promise_type" where
  "set_environment env p = p\<lparr>env_' := env\<rparr>"

definition environment :: "promise_type \<Rightarrow> addr option" where
  "environment p = env_' p"

definition exception :: "promise_type \<Rightarrow> exn option" where
  "exception p = ep_' p"

definition return_value :: "int \<Rightarrow> promise_type \<Rightarrow> promise_type" where
  "return_value v p = p\<lparr>result_' := Some v\<rparr>"

definition return_void :: "promise_type \<Rightarrow> promise_type" where
  "return_void p = p"

definition unhandled_exception :: "exn \<Rightarrow> promise_type \<Rightarrow> promise_type" where
  "unhandled_exception current_exception p = p\<lparr>ep_' := Some current_exception\<rparr>"

text \<open>\<open>task_return_base<T>::result\<close>: reading the empty optional is undefined.\<close>

definition result :: "promise_type \<Rightarrow> error + int" where
  "result p = (case result_' p of None \<Rightarrow> Inl UndefinedBehaviour | Some v \<Rightarrow> Inr v)"

subsection \<open>Coroutine bodies\<close>

text \<open>
  A coroutine body is the tree of its suspension points: what it awaits, and how it goes
  on with the value the await expression yields. \<open>throw\<close> is a body that raises, with no
  handler of its own, so that the exception reaches \<open>unhandled_exception\<close>;
  \<open>undefined_behaviour\<close> is a body whose next step has undefined behaviour, as an
  \<open>int\<close> computation that overflows has. The \<open>printf\<close> calls of the demonstration are
  left out. The values a body carries are integers; the arithmetic of a body is done in
  the machine type \<open>int\<close> (\<open>as_int\<close> below).
\<close>

record immediate_value =
  value_' :: int

datatype coro =
    co_return int
  | co_return_void
  | throw exn
  | await_environment "addr option \<Rightarrow> coro"
  | await_executor "executor_ref \<Rightarrow> coro"
  | await_stop_token "stop_token \<Rightarrow> coro"
  | await_allocator "memory_resource option \<Rightarrow> coro"
  | await_immediate immediate_value "int \<Rightarrow> coro"
  | await_task coro "int \<Rightarrow> coro"
  | await_void_task coro coro
  | undefined_behaviour

text \<open>
  The type \<open>int\<close> is 32 bits wide. \<open>as_int v k\<close> is a body that computes, in \<open>int\<close>, an
  expression whose mathematical value is \<open>v\<close> and goes on with the result: signed
  overflow is undefined behaviour.
\<close>

definition INT_MIN :: int where
  "INT_MIN = - 2147483648"

definition INT_MAX :: int where
  "INT_MAX = 2147483647"

definition as_int :: "int \<Rightarrow> (int \<Rightarrow> coro) \<Rightarrow> coro" where
  "as_int v k = (if INT_MIN \<le> v \<and> v \<le> INT_MAX then k v else undefined_behaviour)"

subsection \<open>Tasks, frames and the machine state\<close>

record task =
  h_' :: handle

text \<open>
  Where a frame is suspended, with the temporaries alive there: the awaiter of a
  \<open>co_await\<close> holds the awaited object \<open>a_\<close> and the rest of the body.
\<close>

datatype status =
    Running
  | AtInitial coro
  | AwaitingTask task "int \<Rightarrow> coro"
  | AwaitingVoidTask task coro
  | AtFinal

record frame =
  promise :: promise_type
  status :: status

text \<open>
  \<open>allocate\<close> and \<open>deallocate\<close> of \<open>std::pmr::memory_resource\<close> are outside the
  repository: every resource hands out fresh blocks above \<open>brk\<close>, allocation always
  succeeds, and each call is recorded in \<open>events\<close>. \<open>cells\<close> is the content of the
  pointer-sized slots that \<open>operator new\<close> writes behind the frames.
\<close>

datatype event =
    Allocate memory_resource addr size_t size_t
  | Deallocate memory_resource addr size_t size_t

record state =
  frames :: "addr \<rightharpoonup> frame"
  envs :: "io_env list"
  current_frame_allocator :: "memory_resource option"
  cells :: "addr \<rightharpoonup> memory_resource"
  brk :: addr
  events :: "event list"

definition get_default_resource :: memory_resource where
  "get_default_resource = 0"

definition align_up :: "nat \<Rightarrow> nat \<Rightarrow> nat" where
  "align_up a n = ((n + a - 1) div a) * a"

definition allocate :: "memory_resource \<Rightarrow> size_t \<Rightarrow> size_t \<Rightarrow> state \<Rightarrow> addr \<times> state" where
  "allocate mr bytes alignment s =
     (let raw = align_up (unat alignment) (brk s)
      in (raw, s\<lparr>brk := raw + unat bytes,
                  events := events s @ [Allocate mr raw bytes alignment]\<rparr>))"

definition deallocate :: "memory_resource \<Rightarrow> addr \<Rightarrow> size_t \<Rightarrow> size_t \<Rightarrow> state \<Rightarrow> state" where
  "deallocate mr p bytes alignment s =
     s\<lparr>events := events s @ [Deallocate mr p bytes alignment]\<rparr>"

text \<open>Reading through an \<open>io_env const*\<close>; the environments live in \<open>envs\<close>.\<close>

definition deref_env :: "state \<Rightarrow> addr option \<Rightarrow> error + io_env" where
  "deref_env s p =
     (case p of None \<Rightarrow> Inl UndefinedBehaviour
      | Some a \<Rightarrow> if a < length (envs s) then Inr (envs s ! a) else Inl UndefinedBehaviour)"

subsection \<open>Frame allocation: operator new and operator delete\<close>

definition ptr_alignment :: size_t where
  "ptr_alignment = 8"

definition sizeof_ptr :: size_t where
  "sizeof_ptr = 8"

definition alignof_max_align_t :: size_t where
  "alignof_max_align_t = 16"

definition aligned_offset :: "size_t \<Rightarrow> size_t" where
  "aligned_offset n = (n + ptr_alignment - 1) AND NOT (ptr_alignment - 1)"

definition operator_new :: "size_t \<Rightarrow> state \<Rightarrow> addr \<times> state" where
  "operator_new sz s =
     (let mr = (case current_frame_allocator s of None \<Rightarrow> get_default_resource | Some m \<Rightarrow> m);
          ptr_offset = aligned_offset sz;
          total = ptr_offset + sizeof_ptr;
          (raw, s1) = allocate mr total alignof_max_align_t s;
          ptr_loc = raw + unat ptr_offset
      in (raw, s1\<lparr>cells := (cells s1)(ptr_loc \<mapsto> mr)\<rparr>))"

definition operator_delete :: "addr \<Rightarrow> size_t \<Rightarrow> state \<Rightarrow> error + state" where
  "operator_delete ptr sz s =
     (let ptr_offset = aligned_offset sz;
          ptr_loc = ptr + unat ptr_offset
      in case cells s ptr_loc of
           None \<Rightarrow> Inl UndefinedBehaviour
         | Some mr \<Rightarrow>
             (let total = ptr_offset + sizeof_ptr
              in Inr (deallocate mr ptr total alignof_max_align_t s)))"

subsection \<open>Destroying a frame\<close>

text \<open>
  The size the compiler passes to \<open>operator new\<close> and \<open>operator delete\<close> for a frame;
  the model fixes one value for every coroutine.
\<close>

definition frame_size :: size_t where
  "frame_size = 96"

text \<open>
  The destructors call \<open>coroutine_handle::destroy\<close>, which runs the destructors of
  the frame again; they take it as the argument \<open>destroy\<close>.
\<close>

definition task_dtor :: "(handle \<Rightarrow> state \<Rightarrow> error + state) \<Rightarrow> task \<Rightarrow> state \<Rightarrow> error + state" where
  "task_dtor destroy t s = (if h_' t \<noteq> Null then destroy (h_' t) s else Inr s)"

definition io_awaitable_support_dtor ::
  "(handle \<Rightarrow> state \<Rightarrow> error + state) \<Rightarrow> promise_type \<Rightarrow> state \<Rightarrow> error + state" where
  "io_awaitable_support_dtor destroy p s =
     (if cont_' p \<noteq> Noop then destroy (cont_' p) s else Inr s)"

text \<open>The temporaries alive at a suspension point: the awaiter and the task it holds.\<close>

definition temporaries_dtor ::
  "(handle \<Rightarrow> state \<Rightarrow> error + state) \<Rightarrow> status \<Rightarrow> state \<Rightarrow> error + state" where
  "temporaries_dtor destroy st s =
     (case st of
        AwaitingTask a k \<Rightarrow> task_dtor destroy a s
      | AwaitingVoidTask a k \<Rightarrow> task_dtor destroy a s
      | _ \<Rightarrow> Inr s)"

text \<open>
  \<open>coroutine_handle::destroy\<close>. Destroying the no-op coroutine does nothing; a frame
  must exist and be suspended. It ceases to be a live frame at once, its temporaries
  and its promise are destroyed, and its memory goes to \<open>operator delete\<close>. The first
  argument bounds the depth of nested destruction.
\<close>

primrec destroy :: "nat \<Rightarrow> handle \<Rightarrow> state \<Rightarrow> error + state" where
  "destroy 0 h s = Inl OutOfFuel"
| "destroy (Suc n) h s =
     (case h of
        Null \<Rightarrow> Inl UndefinedBehaviour
      | Noop \<Rightarrow> Inr s
      | Frame f \<Rightarrow>
         (case frames s f of
            None \<Rightarrow> Inl UndefinedBehaviour
          | Some fr \<Rightarrow>
             (case status fr of
                Running \<Rightarrow> Inl UndefinedBehaviour
              | _ \<Rightarrow>
                 (case temporaries_dtor (destroy n) (status fr)
                         (s\<lparr>frames := (frames s)(f := None)\<rparr>) of
                    Inl e \<Rightarrow> Inl e
                  | Inr s1 \<Rightarrow>
                     (case io_awaitable_support_dtor (destroy n) (promise fr) s1 of
                        Inl e \<Rightarrow> Inl e
                      | Inr s2 \<Rightarrow> operator_delete f frame_size s2)))))"

subsection \<open>task\<close>

definition get_return_object :: "addr \<Rightarrow> task" where
  "get_return_object this = \<lparr>h_' = Frame this\<rparr>"

definition task_await_ready :: "task \<Rightarrow> bool" where
  "task_await_ready t = False"

text \<open>\<open>h_.promise()\<close>: the handle must refer to a live frame.\<close>

definition handle_promise :: "state \<Rightarrow> handle \<Rightarrow> error + promise_type" where
  "handle_promise s h =
     (case h of
        Frame f \<Rightarrow> (case frames s f of None \<Rightarrow> Inl UndefinedBehaviour | Some fr \<Rightarrow> Inr (promise fr))
      | _ \<Rightarrow> Inl UndefinedBehaviour)"

definition put_promise :: "handle \<Rightarrow> promise_type \<Rightarrow> state \<Rightarrow> state" where
  "put_promise h p s =
     (case h of
        Frame f \<Rightarrow> (case frames s f of None \<Rightarrow> s
                    | Some fr \<Rightarrow> s\<lparr>frames := (frames s)(f \<mapsto> fr\<lparr>promise := p\<rparr>)\<rparr>)
      | _ \<Rightarrow> s)"

definition task_await_resume :: "task \<Rightarrow> state \<Rightarrow> error + int" where
  "task_await_resume t s =
     (case handle_promise s (h_' t) of
        Inl e \<Rightarrow> Inl e
      | Inr p \<Rightarrow> (case ep_' p of Some e \<Rightarrow> Inl (Rethrown e) | None \<Rightarrow> result p))"

text \<open>The instance for \<open>task<void>\<close>, which has no \<open>result_\<close>.\<close>

definition task_await_resume_void :: "task \<Rightarrow> state \<Rightarrow> error + unit" where
  "task_await_resume_void t s =
     (case handle_promise s (h_' t) of
        Inl e \<Rightarrow> Inl e
      | Inr p \<Rightarrow> (case ep_' p of Some e \<Rightarrow> Inl (Rethrown e) | None \<Rightarrow> Inr ()))"

definition task_await_suspend ::
  "task \<Rightarrow> handle \<Rightarrow> addr option \<Rightarrow> state \<Rightarrow> error + (handle \<times> state)" where
  "task_await_suspend t cont env s =
     (case handle_promise s (h_' t) of
        Inl e \<Rightarrow> Inl e
      | Inr p \<Rightarrow>
          (let s1 = put_promise (h_' t) (set_continuation cont p) s
           in case handle_promise s1 (h_' t) of
                Inl e \<Rightarrow> Inl e
              | Inr p1 \<Rightarrow> Inr (h_' t, put_promise (h_' t) (set_environment env p1) s1)))"

definition task_handle :: "task \<Rightarrow> handle" where
  "task_handle t = h_' t"

definition task_release :: "task \<Rightarrow> task" where
  "task_release t = t\<lparr>h_' := Null\<rparr>"

text \<open>The move constructor: the new task and what is left of \<open>other\<close>.\<close>

definition task_move_ctor :: "task \<Rightarrow> task \<times> task" where
  "task_move_ctor other = (\<lparr>h_' = h_' other\<rparr>, other\<lparr>h_' := Null\<rparr>)"

subsection \<open>The awaiters of promise_type\<close>

text \<open>\<open>initial_suspend\<close>: the awaiter is never ready; this is its \<open>await_resume\<close>.\<close>

definition initial_awaiter_await_resume :: "promise_type \<Rightarrow> state \<Rightarrow> error + state" where
  "initial_awaiter_await_resume p s =
     (case deref_env s (environment p) of
        Inl e \<Rightarrow> Inl e
      | Inr env \<Rightarrow>
          (let fa = allocator env
           in if fa \<noteq> None \<and> fa \<noteq> current_frame_allocator s
              then Inr (s\<lparr>current_frame_allocator := fa\<rparr>)
              else Inr s))"

text \<open>\<open>final_suspend\<close>: the awaiter is never ready; this is its \<open>await_suspend\<close>.\<close>

definition final_awaiter_await_suspend :: "promise_type \<Rightarrow> handle \<times> promise_type" where
  "final_awaiter_await_suspend p = continuation p"

text \<open>
  \<open>transform_awaiter\<close>, which wraps an awaited object \<open>a_\<close>; the members of \<open>a_\<close> it
  calls are arguments. \<open>await_resume\<close> gives the state after its own assignments
  together with what \<open>a_.await_resume()\<close> returns or throws.
\<close>

definition transform_awaiter_await_ready :: "bool \<Rightarrow> bool" where
  "transform_awaiter_await_ready a_await_ready = a_await_ready"

definition transform_awaiter_await_resume ::
  "(state \<Rightarrow> error + 'r) \<Rightarrow> promise_type \<Rightarrow> state \<Rightarrow> error + (state \<times> (error + 'r))" where
  "transform_awaiter_await_resume a_await_resume p s =
     (case deref_env s (environment p) of
        Inl e \<Rightarrow> Inl e
      | Inr env \<Rightarrow>
          (let fa = allocator env;
               s1 = (if fa \<noteq> None \<and> fa \<noteq> current_frame_allocator s
                     then s\<lparr>current_frame_allocator := fa\<rparr> else s)
           in Inr (s1, a_await_resume s1)))"

definition transform_awaiter_await_suspend ::
  "(handle \<Rightarrow> addr option \<Rightarrow> state \<Rightarrow> error + (handle \<times> state)) \<Rightarrow>
   promise_type \<Rightarrow> handle \<Rightarrow> state \<Rightarrow> error + (handle \<times> state)" where
  "transform_awaiter_await_suspend a_await_suspend p h s = a_await_suspend h (environment p) s"

subsection \<open>immediate_value\<close>

definition immediate_value_await_ready :: "immediate_value \<Rightarrow> bool" where
  "immediate_value_await_ready a = True"

definition immediate_value_await_suspend ::
  "immediate_value \<Rightarrow> handle \<Rightarrow> addr option \<Rightarrow> state \<Rightarrow> error + (handle \<times> state)" where
  "immediate_value_await_suspend a h env s = Inr (Noop, s)"

definition immediate_value_await_resume :: "immediate_value \<Rightarrow> int" where
  "immediate_value_await_resume a = value_' a"

subsection \<open>Running coroutines\<close>

text \<open>
  Calling a coroutine function with body \<open>b\<close>: the frame comes from \<open>operator new\<close>,
  the promise is constructed, \<open>get_return_object\<close> makes the task, and the coroutine
  stops at its initial suspension point.
\<close>

definition coroutine_call :: "coro \<Rightarrow> state \<Rightarrow> task \<times> state" where
  "coroutine_call b s =
     (let (raw, s1) = operator_new frame_size s
      in (get_return_object raw,
          s1\<lparr>frames := (frames s1)(raw \<mapsto> \<lparr>promise = promise_init, status = AtInitial b\<rparr>)\<rparr>))"

definition set_status :: "addr \<Rightarrow> status \<Rightarrow> state \<Rightarrow> state" where
  "set_status f st s =
     (case frames s f of None \<Rightarrow> s
      | Some fr \<Rightarrow> s\<lparr>frames := (frames s)(f \<mapsto> fr\<lparr>status := st\<rparr>)\<rparr>)"

text \<open>
  The end of a body: the coroutine suspends at \<open>final_suspend\<close>, and the handle its
  awaiter returns is resumed next.
\<close>

definition final_suspend :: "addr \<Rightarrow> state \<Rightarrow> error + (handle \<times> state)" where
  "final_suspend f s =
     (case handle_promise s (Frame f) of
        Inl e \<Rightarrow> Inl e
      | Inr p \<Rightarrow>
          (let (h, p1) = final_awaiter_await_suspend p
           in Inr (h, put_promise (Frame f) p1 (set_status f AtFinal s))))"

text \<open>An exception leaves the body: \<open>unhandled_exception\<close>, then \<open>final_suspend\<close>.\<close>

definition body_raises :: "exn \<Rightarrow> addr \<Rightarrow> state \<Rightarrow> error + (handle \<times> state)" where
  "body_raises e f s =
     (case handle_promise s (Frame f) of
        Inl x \<Rightarrow> Inl x
      | Inr p \<Rightarrow> final_suspend f (put_promise (Frame f) (unhandled_exception e p) s))"

text \<open>
  The running coroutine \<open>f\<close> executes the body up to its next suspension; the result is
  the handle to resume next. The four \<open>this_coro\<close> tags and \<open>immediate_value\<close> are
  ready at once (\<open>await_ready\<close> is constantly true), a task never is
  (\<open>task::await_ready\<close> is constantly false): then the operand is evaluated, moved into
  the \<open>transform_awaiter\<close>, the coroutine is suspended and the awaiter's
  \<open>await_suspend\<close> is called.
\<close>

primrec run_body :: "coro \<Rightarrow> addr \<Rightarrow> state \<Rightarrow> error + (handle \<times> state)" where
  "run_body (co_return v) f s =
     (case handle_promise s (Frame f) of
        Inl e \<Rightarrow> Inl e
      | Inr p \<Rightarrow> final_suspend f (put_promise (Frame f) (return_value v p) s))"
| "run_body co_return_void f s =
     (case handle_promise s (Frame f) of
        Inl e \<Rightarrow> Inl e
      | Inr p \<Rightarrow> final_suspend f (put_promise (Frame f) (return_void p) s))"
| "run_body (throw e) f s = body_raises e f s"
| "run_body (await_environment k) f s =
     (case handle_promise s (Frame f) of
        Inl e \<Rightarrow> Inl e
      | Inr p \<Rightarrow> run_body (k (env_' p)) f s)"
| "run_body (await_executor k) f s =
     (case handle_promise s (Frame f) of
        Inl e \<Rightarrow> Inl e
      | Inr p \<Rightarrow> (case deref_env s (env_' p) of
                   Inl e \<Rightarrow> Inl e
                 | Inr env \<Rightarrow> run_body (k (executor env)) f s))"
| "run_body (await_stop_token k) f s =
     (case handle_promise s (Frame f) of
        Inl e \<Rightarrow> Inl e
      | Inr p \<Rightarrow> (case deref_env s (env_' p) of
                   Inl e \<Rightarrow> Inl e
                 | Inr env \<Rightarrow> run_body (k (stop_token env)) f s))"
| "run_body (await_allocator k) f s =
     (case handle_promise s (Frame f) of
        Inl e \<Rightarrow> Inl e
      | Inr p \<Rightarrow> (case deref_env s (env_' p) of
                   Inl e \<Rightarrow> Inl e
                 | Inr env \<Rightarrow> run_body (k (allocator env)) f s))"
| "run_body (await_immediate a k) f s =
     (case handle_promise s (Frame f) of
        Inl e \<Rightarrow> Inl e
      | Inr p \<Rightarrow>
          (case transform_awaiter_await_resume
                  (\<lambda>s. Inr (immediate_value_await_resume a)) p s of
             Inl e \<Rightarrow> Inl e
           | Inr (s1, r) \<Rightarrow>
               (case r of
                  Inr v \<Rightarrow> run_body (k v) f s1
                | Inl (Rethrown e) \<Rightarrow> body_raises e f s1
                | Inl x \<Rightarrow> Inl x)))"
| "run_body (await_task c k) f s =
     (case handle_promise s (Frame f) of
        Inl e \<Rightarrow> Inl e
      | Inr p \<Rightarrow>
          (let (t, s1) = coroutine_call c s;
               (a, t1) = task_move_ctor t
           in transform_awaiter_await_suspend (task_await_suspend a) p (Frame f)
                (set_status f (AwaitingTask a k) s1)))"
| "run_body (await_void_task c k) f s =
     (case handle_promise s (Frame f) of
        Inl e \<Rightarrow> Inl e
      | Inr p \<Rightarrow>
          (let (t, s1) = coroutine_call c s;
               (a, t1) = task_move_ctor t
           in transform_awaiter_await_suspend (task_await_suspend a) p (Frame f)
                (set_status f (AwaitingVoidTask a k) s1)))"
| "run_body undefined_behaviour f s = Inl UndefinedBehaviour"

text \<open>
  A suspended coroutine is resumed: at its initial suspension point the awaiter's
  \<open>await_resume\<close> runs and the body starts; at a \<open>co_await\<close> of a task the
  \<open>transform_awaiter\<close>'s \<open>await_resume\<close> runs, the awaiter with its task is destroyed
  (at the end of the full expression, or while the exception unwinds), and the body
  goes on with the value or with the exception. Resuming a coroutine that is running or
  suspended at its final suspension point is undefined.
\<close>

definition resume_frame :: "nat \<Rightarrow> addr \<Rightarrow> state \<Rightarrow> error + (handle \<times> state)" where
  "resume_frame n f s =
     (case frames s f of
        None \<Rightarrow> Inl UndefinedBehaviour
      | Some fr \<Rightarrow>
          (let s0 = set_status f Running s; p = promise fr
           in case status fr of
                Running \<Rightarrow> Inl UndefinedBehaviour
              | AtFinal \<Rightarrow> Inl UndefinedBehaviour
              | AtInitial b \<Rightarrow>
                  (case initial_awaiter_await_resume p s0 of
                     Inl e \<Rightarrow> Inl e
                   | Inr s1 \<Rightarrow> run_body b f s1)
              | AwaitingTask a k \<Rightarrow>
                  (case transform_awaiter_await_resume (task_await_resume a) p s0 of
                     Inl e \<Rightarrow> Inl e
                   | Inr (s1, r) \<Rightarrow>
                       (case task_dtor (destroy n) a s1 of
                          Inl e \<Rightarrow> Inl e
                        | Inr s2 \<Rightarrow>
                            (case r of
                               Inr v \<Rightarrow> run_body (k v) f s2
                             | Inl (Rethrown e) \<Rightarrow> body_raises e f s2
                             | Inl x \<Rightarrow> Inl x)))
              | AwaitingVoidTask a k \<Rightarrow>
                  (case transform_awaiter_await_resume (task_await_resume_void a) p s0 of
                     Inl e \<Rightarrow> Inl e
                   | Inr (s1, r) \<Rightarrow>
                       (case task_dtor (destroy n) a s1 of
                          Inl e \<Rightarrow> Inl e
                        | Inr s2 \<Rightarrow>
                            (case r of
                               Inr v \<Rightarrow> run_body k f s2
                             | Inl (Rethrown e) \<Rightarrow> body_raises e f s2
                             | Inl x \<Rightarrow> Inl x)))))"

text \<open>
  \<open>coroutine_handle::resume\<close>: the coroutine runs, and every handle an \<open>await_suspend\<close>
  returns is resumed in turn, until one returns the no-op coroutine. The first argument
  bounds the number of transfers.
\<close>

primrec resume :: "nat \<Rightarrow> handle \<Rightarrow> state \<Rightarrow> error + state" where
  "resume 0 h s = Inl OutOfFuel"
| "resume (Suc n) h s =
     (case h of
        Null \<Rightarrow> Inl UndefinedBehaviour
      | Noop \<Rightarrow> Inr s
      | Frame f \<Rightarrow>
          (case resume_frame n f s of
             Inl e \<Rightarrow> Inl e
           | Inr (h1, s1) \<Rightarrow> resume n h1 s1))"

subsection \<open>run_sync\<close>

text \<open>
  The local \<open>env\<close> is a new entry of \<open>envs\<close>; its \<open>allocator\<close> member keeps its default
  initialiser. \<open>p\<close> is a reference, so the promise is read again after \<open>h.resume()\<close>.
  The parameter \<open>t\<close> is destroyed when the function is left. The first argument bounds
  the transfers of \<open>h.resume()\<close>.
\<close>

definition run_sync ::
  "nat \<Rightarrow> executor_ref \<Rightarrow> stop_token \<Rightarrow> task \<Rightarrow> state \<Rightarrow> error + (int \<times> state)" where
  "run_sync n ex token t s =
     (let h = task_handle t
      in case handle_promise s h of
           Inl e \<Rightarrow> Inl e
         | Inr p \<Rightarrow>
             (let env = \<lparr>executor = ex, stop_token = token, allocator = None\<rparr>;
                  env_addr = length (envs s);
                  s1 = s\<lparr>envs := envs s @ [env]\<rparr>;
                  s2 = put_promise h (set_environment (Some env_addr) p) s1;
                  t1 = task_release t
              in case resume n h s2 of
                   Inl e \<Rightarrow> Inl e
                 | Inr s3 \<Rightarrow>
                     (case task_dtor (destroy n) t1 s3 of
                        Inl e \<Rightarrow> Inl e
                      | Inr s4 \<Rightarrow>
                          (case handle_promise s4 h of
                             Inl e \<Rightarrow> Inl e
                           | Inr p1 \<Rightarrow>
                               (case exception p1 of
                                  Some e \<Rightarrow> Inl (Rethrown e)
                                | None \<Rightarrow>
                                    (case result p1 of
                                       Inl e \<Rightarrow> Inl e
                                     | Inr v \<Rightarrow> Inr (v, s4)))))))"

text \<open>The instance for \<open>task<void>\<close>: nothing is returned.\<close>

definition run_sync_void ::
  "nat \<Rightarrow> executor_ref \<Rightarrow> stop_token \<Rightarrow> task \<Rightarrow> state \<Rightarrow> error + (unit \<times> state)" where
  "run_sync_void n ex token t s =
     (let h = task_handle t
      in case handle_promise s h of
           Inl e \<Rightarrow> Inl e
         | Inr p \<Rightarrow>
             (let env = \<lparr>executor = ex, stop_token = token, allocator = None\<rparr>;
                  env_addr = length (envs s);
                  s1 = s\<lparr>envs := envs s @ [env]\<rparr>;
                  s2 = put_promise h (set_environment (Some env_addr) p) s1;
                  t1 = task_release t
              in case resume n h s2 of
                   Inl e \<Rightarrow> Inl e
                 | Inr s3 \<Rightarrow>
                     (case task_dtor (destroy n) t1 s3 of
                        Inl e \<Rightarrow> Inl e
                      | Inr s4 \<Rightarrow>
                          (case handle_promise s4 h of
                             Inl e \<Rightarrow> Inl e
                           | Inr p1 \<Rightarrow>
                               (case exception p1 of
                                  Some e \<Rightarrow> Inl (Rethrown e)
                                | None \<Rightarrow> Inr ((), s4))))))"

text \<open>The overload without a stop token passes \<open>std::stop_token{}\<close>.\<close>

definition run_sync2 :: "nat \<Rightarrow> executor_ref \<Rightarrow> task \<Rightarrow> state \<Rightarrow> error + (int \<times> state)" where
  "run_sync2 n ex t s = run_sync n ex None t s"

subsection \<open>The demonstration\<close>

definition compute :: "int \<Rightarrow> coro" where
  "compute x =
     await_environment (\<lambda>env.
       as_int (x * 10) (\<lambda>y.
         await_immediate \<lparr>value_' = y\<rparr> (\<lambda>v.
           as_int (v + 1) co_return)))"

definition parent_task :: coro where
  "parent_task =
     await_environment (\<lambda>env.
       await_task (compute 3) (\<lambda>a.
         await_task (compute 7) (\<lambda>b.
           as_int (a + b) co_return)))"

definition void_task :: coro where
  "void_task = await_environment (\<lambda>env. co_return_void)"

text \<open>The state \<open>main\<close> starts in: no frame, no allocator installed.\<close>

definition initial_state :: state where
  "initial_state =
     \<lparr>frames = Map.empty, envs = [], current_frame_allocator = None,
      cells = Map.empty, brk = 0, events = []\<rparr>"

text \<open>
  \<open>run_sync(ex, parent_task())\<close> as \<open>main\<close> calls it: the operand is evaluated first,
  which creates the frame of the parent.
\<close>

definition run_parent_task :: "nat \<Rightarrow> executor_ref \<Rightarrow> error + (int \<times> state)" where
  "run_parent_task n ex =
     (let (t, s) = coroutine_call parent_task initial_state
      in run_sync2 n ex t s)"

text \<open>A single coroutine with body \<open>b\<close> started from \<open>main\<close>'s state by \<open>run_sync\<close>.\<close>

definition run_alone :: "nat \<Rightarrow> executor_ref \<Rightarrow> stop_token \<Rightarrow> coro \<Rightarrow> error + (int \<times> state)" where
  "run_alone n ex token b =
     (let (t, s) = coroutine_call b initial_state
      in run_sync n ex token t s)"

subsection \<open>Task objects and their owners\<close>







text \<open>The \<open>Deallocate\<close> events of the block at \<open>p\<close>.\<close>

fun deallocations :: "addr \<Rightarrow> event list \<Rightarrow> nat" where
  "deallocations p [] = 0"
| "deallocations p (Allocate mr q bytes al # es) = deallocations p es"
| "deallocations p (Deallocate mr q bytes al # es) =
     (if q = p then Suc (deallocations p es) else deallocations p es)"

text \<open>
  Executors in memory for the examples: two \<open>inline_executor\<close> objects of one type
  (table at 10) at the addresses 1 and 2, and objects of a second executor type (table
  at 20) at the addresses 1 and 3; the object at 1 is the first member of the other
  object at 1, as in \<open>struct outer { inline_executor in; ... }\<close>.
\<close>

definition example_objects :: "addr \<Rightarrow> addr \<Rightarrow> inline_executor option" where
  "example_objects v p =
     (if v = 10 \<and> (p = 1 \<or> p = 2) then Some \<lparr>ctx_' = Some 5\<rparr>
      else if v = 20 \<and> (p = 1 \<or> p = 3) then Some \<lparr>ctx_' = Some 5\<rparr>
      else None)"

definition example_equalities :: "addr \<Rightarrow> inline_executor \<Rightarrow> inline_executor \<Rightarrow> bool" where
  "example_equalities v = inline_executor_eq"

text \<open>
  What a destruction may do to a state: live frames are removed and never changed,
  blocks of frames that are not live are not deallocated, and nothing else but the
  record of events changes.
\<close>

definition destroyed_only :: "state \<Rightarrow> state \<Rightarrow> bool" where
  "destroyed_only s s1 =
     ((\<forall>a. frames s1 a = None \<or> frames s1 a = frames s a)
      \<and> (\<forall>a. frames s a = None \<longrightarrow> deallocations a (events s1) = deallocations a (events s))
      \<and> current_frame_allocator s1 = current_frame_allocator s
      \<and> envs s1 = envs s \<and> cells s1 = cells s \<and> brk s1 = brk s)"






text \<open>
  The state in which the body of \<open>f\<close> goes on after a resumption point: \<open>f\<close> is running
  and the thread-local slot has been brought in line with the environment \<open>env\<close> of \<open>f\<close>.
\<close>

definition entered :: "addr \<Rightarrow> io_env \<Rightarrow> state \<Rightarrow> state" where
  "entered f env s =
     (set_status f Running s)\<lparr>current_frame_allocator :=
        (case allocator env of None \<Rightarrow> current_frame_allocator s | Some a \<Rightarrow> Some a)\<rparr>"


text \<open>
  More states for the examples. In \<open>example_installed a slot\<close> one coroutine is suspended
  at its initial suspension point (frame at 0), its environment (at 0 in \<open>envs\<close>) names
  the allocator \<open>a\<close>, and the thread-local slot holds \<open>slot\<close>. In \<open>example_awaiting\<close>
  the coroutine \<open>parent_task\<close> (frame at 0) has been started by \<open>run_sync\<close> and is
  suspended in its first \<open>co_await\<close>, on the child at 112 that has not started yet.
\<close>

definition example_installed :: "memory_resource option \<Rightarrow> memory_resource option \<Rightarrow> state" where
  "example_installed a slot =
     (let (t, s) = coroutine_call (co_return 1) initial_state
      in put_promise (Frame 0) (set_environment (Some 0) promise_init)
           (s\<lparr>envs := [\<lparr>executor = executor_ref_default, stop_token = None, allocator = a\<rparr>],
              current_frame_allocator := slot\<rparr>))"

definition example_awaiting :: state where
  "example_awaiting =
     (let (t, s) = coroutine_call parent_task initial_state;
          s1 = put_promise (Frame 0) (set_environment (Some 0) promise_init)
                 (s\<lparr>envs := [\<lparr>executor = executor_ref_default, stop_token = None,
                                allocator = None\<rparr>]\<rparr>)
      in case resume_frame 0 0 s1 of Inl e \<Rightarrow> s1 | Inr (h, s2) \<Rightarrow> s2)"


subsection \<open>What a body computes\<close>

text \<open>
  The reference the machine is compared with: the completion of a body when every
  coroutine it awaits, at any depth, is handed one and the same environment pointer
  \<open>ep\<close> and environment \<open>env\<close>, a failed child fails its parent at the \<open>co_await\<close>,
  and nothing else is observed. Awaiting, for its value, a task that returned none is
  undefined.
\<close>

datatype completion = Returned int | ReturnedVoid | Raised exn | Undefined

primrec eval :: "addr option \<Rightarrow> io_env \<Rightarrow> coro \<Rightarrow> completion" where
  "eval ep env (co_return v) = Returned v"
| "eval ep env co_return_void = ReturnedVoid"
| "eval ep env (throw e) = Raised e"
| "eval ep env (await_environment k) = eval ep env (k ep)"
| "eval ep env (await_executor k) = eval ep env (k (executor env))"
| "eval ep env (await_stop_token k) = eval ep env (k (stop_token env))"
| "eval ep env (await_allocator k) = eval ep env (k (allocator env))"
| "eval ep env (await_immediate a k) = eval ep env (k (value_' a))"
| "eval ep env (await_task c k) =
     (case eval ep env c of
        Returned v \<Rightarrow> eval ep env (k v)
      | Raised e \<Rightarrow> Raised e
      | ReturnedVoid \<Rightarrow> Undefined
      | Undefined \<Rightarrow> Undefined)"
| "eval ep env (await_void_task c k) =
     (case eval ep env c of
        Returned v \<Rightarrow> eval ep env k
      | ReturnedVoid \<Rightarrow> eval ep env k
      | Raised e \<Rightarrow> Raised e
      | Undefined \<Rightarrow> Undefined)"
| "eval ep env undefined_behaviour = Undefined"

text \<open>The promise of a coroutine that has completed and handed out its continuation.\<close>

definition finish :: "completion \<Rightarrow> promise_type \<Rightarrow> promise_type" where
  "finish out p =
     (case out of
        Returned v \<Rightarrow> p\<lparr>result_' := Some v, cont_' := Noop\<rparr>
      | ReturnedVoid \<Rightarrow> p\<lparr>cont_' := Noop\<rparr>
      | Raised e \<Rightarrow> p\<lparr>ep_' := Some e, cont_' := Noop\<rparr>
      | Undefined \<Rightarrow> p)"

text \<open>
  The running coroutine \<open>f\<close> goes on with the body \<open>b\<close>, and the handles are resumed in
  turn as in \<open>resume\<close>.
\<close>

definition run_on :: "nat \<Rightarrow> coro \<Rightarrow> addr \<Rightarrow> state \<Rightarrow> error + state" where
  "run_on n b f s = (case run_body b f s of Inl e \<Rightarrow> Inl e | Inr (h, s1) \<Rightarrow> resume n h s1)"

text \<open>
  The allocator that serves the frames created in a state, an event that goes through
  the allocator \<open>m\<close>, live frames lying below \<open>brk\<close>, the slot being in line with an
  environment, and what the run of a coroutine leaves of a state apart from the frames:
  the environments and the slot are kept, memory below \<open>brk\<close> is kept, and every new
  event goes through the allocator \<open>m\<close>.
\<close>

definition serving :: "state \<Rightarrow> memory_resource" where
  "serving s = (case current_frame_allocator s of None \<Rightarrow> get_default_resource | Some m \<Rightarrow> m)"

fun served_by :: "memory_resource \<Rightarrow> event \<Rightarrow> bool" where
  "served_by m (Allocate mr p bytes al) = (mr = m)"
| "served_by m (Deallocate mr p bytes al) = (mr = m)"

definition frames_below_brk :: "state \<Rightarrow> bool" where
  "frames_below_brk s = (\<forall>a. frames s a \<noteq> None \<longrightarrow> a < brk s)"

definition in_sync :: "io_env \<Rightarrow> state \<Rightarrow> bool" where
  "in_sync env s = (allocator env = None \<or> allocator env = current_frame_allocator s)"

definition grown :: "memory_resource \<Rightarrow> state \<Rightarrow> state \<Rightarrow> bool" where
  "grown m s s1 =
     (envs s1 = envs s \<and> current_frame_allocator s1 = current_frame_allocator s
      \<and> brk s \<le> brk s1 \<and> (\<forall>a<brk s. cells s1 a = cells s a)
      \<and> (\<exists>evs. events s1 = events s @ evs \<and> list_all (served_by m) evs))"


text \<open>
  The state in which a child coroutine starts to run: \<open>f\<close>, whose frame is \<open>fr\<close> and whose
  environment pointer is \<open>ep\<close>, has created the child in a new frame at \<open>next_frame\<close>, is
  suspended with status \<open>st\<close>, and the child has been resumed. And the state in which \<open>f\<close>
  goes on once the child at \<open>c\<close> has completed and its frame, served by \<open>m\<close>, has been
  destroyed.
\<close>

definition next_frame :: "state \<Rightarrow> addr" where
  "next_frame s = align_up 16 (brk s)"

definition child_running :: "addr \<Rightarrow> frame \<Rightarrow> addr option \<Rightarrow> status \<Rightarrow> state \<Rightarrow> state" where
  "child_running f fr ep st s =
     s\<lparr>frames := (frames s)
          (f \<mapsto> fr\<lparr>status := st\<rparr>,
           next_frame s \<mapsto> \<lparr>promise = \<lparr>env_' = ep, cont_' = Frame f, ep_' = None, result_' = None\<rparr>,
                           status = Running\<rparr>),
       cells := (cells s)(next_frame s + 96 \<mapsto> serving s),
       brk := next_frame s + 104,
       events := events s @ [Allocate (serving s) (next_frame s) 104 16]\<rparr>"

definition child_joined :: "addr \<Rightarrow> frame \<Rightarrow> addr \<Rightarrow> memory_resource \<Rightarrow> state \<Rightarrow> state" where
  "child_joined f fr c m s =
     s\<lparr>frames := (frames s)(f \<mapsto> fr\<lparr>status := Running\<rparr>, c := None),
       events := events s @ [Deallocate m c 104 16]\<rparr>"


text \<open>
  Bodies and a state for the examples of deep chains. \<open>nested\<close> is three coroutines
  deep, and each level appends the environment pointer it observes as a decimal digit;
  \<open>failing_parent\<close> awaits a child that raises. In \<open>example_root b a slot\<close> a coroutine
  with body \<open>b\<close> is suspended at its initial suspension point (frame at 0), its
  environment is the second entry of \<open>envs\<close> and names the allocator \<open>a\<close>, and the
  thread-local slot holds \<open>slot\<close>.
\<close>

definition observed :: "addr option \<Rightarrow> int" where
  "observed e = (case e of None \<Rightarrow> 0 | Some a \<Rightarrow> int a)"

definition nested_leaf :: coro where
  "nested_leaf = await_environment (\<lambda>e. co_return (observed e))"

definition nested_middle :: coro where
  "nested_middle =
     await_task nested_leaf (\<lambda>x. await_environment (\<lambda>e. co_return (x * 10 + observed e)))"

definition nested :: coro where
  "nested =
     await_task nested_middle (\<lambda>x. await_environment (\<lambda>e. co_return (x * 10 + observed e)))"

definition failing_parent :: coro where
  "failing_parent = await_task (throw (Exn 5)) (\<lambda>v. co_return (v + 1))"

definition example_root :: "coro \<Rightarrow> memory_resource option \<Rightarrow> memory_resource option \<Rightarrow> state" where
  "example_root b a slot =
     (let (t, s) = coroutine_call b initial_state
      in put_promise (Frame 0) (set_environment (Some 1) promise_init)
           (s\<lparr>envs := [\<lparr>executor = executor_ref_default, stop_token = None, allocator = None\<rparr>,
                       \<lparr>executor = executor_ref_of 2 3, stop_token = Some 4, allocator = a\<rparr>],
              current_frame_allocator := slot\<rparr>))"

subsection \<open>Coroutines that can be destroyed\<close>






section \<open>Properties\<close>

lemmas promise_defs =
  promise_init_def set_continuation_def continuation_def set_environment_def
  environment_def exception_def return_value_def return_void_def
  unhandled_exception_def result_def

lemmas alloc_defs =
  operator_new_def operator_delete_def allocate_def deallocate_def
  get_default_resource_def

lemmas task_defs =
  get_return_object_def task_await_ready_def handle_promise_def put_promise_def
  task_await_resume_def task_await_resume_void_def task_await_suspend_def
  task_handle_def task_release_def task_move_ctor_def task_dtor_def

lemmas machine_defs =
  initial_awaiter_await_resume_def final_awaiter_await_suspend_def
  transform_awaiter_await_ready_def transform_awaiter_await_resume_def
  transform_awaiter_await_suspend_def immediate_value_await_resume_def
  coroutine_call_def set_status_def final_suspend_def body_raises_def
  resume_frame_def deref_env_def temporaries_dtor_def io_awaitable_support_dtor_def

lemmas int_defs = as_int_def INT_MIN_def INT_MAX_def

lemmas layout_defs =
  align_up_def aligned_offset_def frame_size_def ptr_alignment_def sizeof_ptr_def
  alignof_max_align_t_def

lemma fuel_2: "k + 2 = Suc (Suc k)"
  by simp

lemma fuel_6: "k + 6 = Suc (Suc (Suc (Suc (Suc (Suc k)))))"
  by simp

subsection \<open>The end-to-end scenario\<close>

text \<open>
  C1. Run by \<open>run_sync\<close> from \<open>main\<close>'s state, \<open>parent_task\<close> returns \<open>102\<close>, whatever the
  executor, as soon as \<open>h.resume()\<close> is given the six transfers the scenario needs. A
  coroutine \<open>compute x\<close> run alone returns \<open>x * 10 + 1\<close> when that is computed without
  overflow of \<open>int\<close>, so the two children yield \<open>31\<close> and \<open>71\<close>; when \<open>x * 10\<close> or the
  addition of \<open>1\<close> overflows, the behaviour is undefined.
\<close>

theorem parent_task_returns_102:
  "map_sum id fst (run_parent_task (k + 6) ex) = Inr 102
   \<and> (INT_MIN \<le> x * 10 \<and> x * 10 + 1 \<le> INT_MAX \<longrightarrow>
        map_sum id fst (run_alone (k + 2) ex token (compute x)) = Inr (x * 10 + 1))
   \<and> (x * 10 < INT_MIN \<or> INT_MAX < x * 10 + 1 \<longrightarrow>
        map_sum id fst (run_alone (k + 2) ex token (compute x)) = Inl UndefinedBehaviour)
   \<and> map_sum id fst (run_alone (k + 2) ex token (compute 3)) = Inr 31
   \<and> map_sum id fst (run_alone (k + 2) ex token (compute 7)) = Inr 71"
proof -
  have parent: "map_sum id fst (run_parent_task (k + 6) ex) = Inr 102"
    unfolding fuel_6
    by (simp add: run_parent_task_def run_sync2_def run_sync_def parent_task_def compute_def
        int_defs initial_state_def promise_defs alloc_defs task_defs machine_defs layout_defs
        Let_def)
  have child: "map_sum id fst (run_alone (k + 2) ex token (compute x)) =
      (if INT_MIN \<le> x * 10 \<and> x * 10 + 1 \<le> INT_MAX then Inr (x * 10 + 1)
       else Inl UndefinedBehaviour)"
    for k ex token x
    unfolding fuel_2
    by (simp add: run_alone_def run_sync_def compute_def int_defs
        initial_state_def promise_defs alloc_defs task_defs machine_defs layout_defs Let_def)
  have in_range: "INT_MIN \<le> x * 10 \<and> x * 10 + 1 \<le> INT_MAX \<longrightarrow>
        map_sum id fst (run_alone (k + 2) ex token (compute x)) = Inr (x * 10 + 1)"
    using child [of k ex token x] by simp
  have overflow: "x * 10 < INT_MIN \<or> INT_MAX < x * 10 + 1 \<longrightarrow>
        map_sum id fst (run_alone (k + 2) ex token (compute x)) = Inl UndefinedBehaviour"
    using child [of k ex token x] by auto
  have three: "map_sum id fst (run_alone (k + 2) ex token (compute 3)) = Inr 31"
    and seven: "map_sum id fst (run_alone (k + 2) ex token (compute 7)) = Inr 71"
    using child [of k ex token 3] child [of k ex token 7]
    by (simp_all add: INT_MIN_def INT_MAX_def)
  show ?thesis
    by (intro conjI parent in_range overflow three seven)
qed

theorem parent_task_returns_102_witness:
  "map_sum id fst (run_alone (Suc (Suc 0)) executor_ref_default None (compute 214748364)) = Inr 2147483641
   \<and> map_sum id fst (run_alone (Suc (Suc 0)) executor_ref_default None (compute (- 214748364)))
       = Inr (- 2147483639)
   \<and> map_sum id fst (run_alone (Suc (Suc 0)) executor_ref_default None (compute 214748365))
       = Inl UndefinedBehaviour
   \<and> map_sum id fst (run_alone (Suc (Suc 0)) executor_ref_default None (compute (- 214748365)))
       = Inl UndefinedBehaviour"
proof -
  have a: "map_sum id fst (run_alone (Suc (Suc 0)) executor_ref_default None (compute 214748364))
      = Inr 2147483641"
    using parent_task_returns_102
            [where k = 0 and x = 214748364 and ex = executor_ref_default and token = None]
    by (simp add: INT_MIN_def INT_MAX_def)
  have b: "map_sum id fst (run_alone (Suc (Suc 0)) executor_ref_default None (compute (- 214748364)))
      = Inr (- 2147483639)"
    using parent_task_returns_102
            [where k = 0 and x = "- 214748364" and ex = executor_ref_default and token = None]
    by (simp add: INT_MIN_def INT_MAX_def)
  have c: "map_sum id fst (run_alone (Suc (Suc 0)) executor_ref_default None (compute 214748365))
      = Inl UndefinedBehaviour"
    using parent_task_returns_102
            [where k = 0 and x = 214748365 and ex = executor_ref_default and token = None]
    by (simp add: INT_MIN_def INT_MAX_def)
  have d: "map_sum id fst (run_alone (Suc (Suc 0)) executor_ref_default None (compute (- 214748365)))
      = Inl UndefinedBehaviour"
    using parent_task_returns_102
            [where k = 0 and x = "- 214748365" and ex = executor_ref_default and token = None]
    by (simp add: INT_MIN_def INT_MAX_def)
  show ?thesis
    by (intro conjI a b c d)
qed

subsection \<open>Equality of executor handles\<close>

text \<open>
  C8 (amended). For well-formed handles \<open>a\<close> and \<open>b\<close>, \<open>a == b\<close> holds exactly when
  they wrap the same address (both null included), or their dispatch tables match and
  the concrete type's equality holds on the two wrapped values. Handles that wrap
  different concrete types at different addresses compare unequal; at one and the same
  address they compare equal, since the address is compared first.
\<close>

theorem executor_ref_eq_characterised:
  assumes "wf_executor_ref obj a" and "wf_executor_ref obj b"
  shows "executor_ref_eq (tables obj eq) a b =
           Inr (ex_' a = ex_' b \<or> (vt_' a = vt_' b \<and> concrete_equal obj eq a b))
         \<and> (vt_' a \<noteq> vt_' b \<and> ex_' a \<noteq> ex_' b \<longrightarrow>
              executor_ref_eq (tables obj eq) a b = Inr False)"
  using assms
  by (auto simp: executor_ref_eq_def tables_def vtable_for_def wf_executor_ref_def
      concrete_equal_def split: option.splits)

theorem executor_ref_eq_witness:
  "wf_executor_ref example_objects (executor_ref_of 1 10)
   \<and> wf_executor_ref example_objects (executor_ref_of 2 10)
   \<and> wf_executor_ref example_objects (executor_ref_of 3 20)
   \<and> executor_ref_eq (tables example_objects example_equalities)
        (executor_ref_of 1 10) (executor_ref_of 2 10) = Inr True
   \<and> executor_ref_eq (tables example_objects example_equalities)
        (executor_ref_of 1 10) (executor_ref_of 3 20) = Inr False"
proof -
  have a: "wf_executor_ref example_objects (executor_ref_of 1 10)"
    and b: "wf_executor_ref example_objects (executor_ref_of 2 10)"
    and c: "wf_executor_ref example_objects (executor_ref_of 3 20)"
    by (simp_all add: wf_executor_ref_def example_objects_def executor_ref_of_def)
  have same_type: "executor_ref_eq (tables example_objects example_equalities)
        (executor_ref_of 1 10) (executor_ref_of 2 10) = Inr True"
    using executor_ref_eq_characterised [OF a b, of example_equalities]
    by (simp add: executor_ref_of_def concrete_equal_def example_objects_def
        example_equalities_def inline_executor_eq_def)
  have other_type: "executor_ref_eq (tables example_objects example_equalities)
        (executor_ref_of 1 10) (executor_ref_of 3 20) = Inr False"
    using executor_ref_eq_characterised [OF a c, of example_equalities]
    by (simp add: executor_ref_of_def)
  from a b c same_type other_type show ?thesis by blast
qed

text \<open>
  The claim as first stated fails: two handles that wrap objects of different concrete
  types at the same address compare equal.
\<close>

theorem executor_ref_eq_counterexample:
  "wf_executor_ref example_objects (executor_ref_of 1 10)
   \<and> wf_executor_ref example_objects (executor_ref_of 1 20)
   \<and> vt_' (executor_ref_of 1 10) \<noteq> vt_' (executor_ref_of 1 20)
   \<and> executor_ref_eq (tables example_objects example_equalities)
        (executor_ref_of 1 10) (executor_ref_of 1 20) = Inr True"
  by (simp add: wf_executor_ref_def example_objects_def executor_ref_of_def executor_ref_eq_def)

subsection \<open>Frame allocation\<close>

lemma and_minus_8: "(w :: 64 word) AND - 8 = push_bit 3 (drop_bit 3 w)"
proof -
  have "(- 8 :: 64 word) = NOT (mask 3)"
    by (simp add: mask_eq_exp_minus_1)
  then show ?thesis
    by (auto simp add: bit_eq_iff bit_simps)
qed

lemma unat_and_minus_8: "unat ((w :: 64 word) AND - 8) = 8 * (unat w div 8)"
proof -
  have "unat w < 2 ^ 64"
    using unsigned_less [of w] by simp
  then have lt: "8 * (unat w div 8) < 2 ^ 64"
    by simp
  have "unat (push_bit 3 (drop_bit 3 w)) = take_bit 64 (push_bit 3 (unat (drop_bit 3 w)))"
    by (simp add: unsigned_push_bit_eq)
  also have "unat (drop_bit 3 w) = unat w div 8"
    by (simp add: unat_drop_bit_eq drop_bit_eq_div unat_div)
  also have "take_bit 64 (push_bit 3 (unat w div 8)) = 8 * (unat w div 8)"
    using lt by (simp add: push_bit_eq_mult take_bit_nat_eq_self mult.commute)
  finally show ?thesis
    by (simp only: and_minus_8)
qed

lemma aligned_offset_eq: "aligned_offset n = (n + 7) AND - 8"
  by (simp add: aligned_offset_def ptr_alignment_def add.commute)

lemma aligned_offset_dvd: "8 dvd unat (aligned_offset n)"
  by (simp only: aligned_offset_eq unat_and_minus_8) simp

lemma aligned_offset_unat:
  assumes "unat n \<le> 2 ^ 64 - 8"
  shows "unat (aligned_offset n) = 8 * ((unat n + 7) div 8)"
proof -
  have "unat (n + 7) = unat n + 7"
    using assms by (simp add: unat_word_ariths)
  then show ?thesis
    by (simp only: aligned_offset_eq unat_and_minus_8)
qed

lemma aligned_offset_after:
  assumes "unat n \<le> 2 ^ 64 - 8"
  shows "unat n \<le> unat (aligned_offset n) \<and> unat (aligned_offset n) < unat n + 8"
  unfolding aligned_offset_unat [OF assms] by presburger

text \<open>
  C3. \<open>operator new\<close> takes the memory from the allocator \<open>mr\<close> of the thread-local slot,
  or from the default resource when the slot is null, and stores \<open>mr\<close> behind the frame,
  at an offset that is a multiple of the pointer alignment and, for a size that the
  rounding does not overflow, the first such offset at or after the end of the frame.
  The matching \<open>operator delete\<close> (same pointer, same size) deallocates through \<open>mr\<close>
  with the same size and alignment, in any later state \<open>s2\<close> that left that slot of
  memory alone, whatever the thread-local slot holds by then.
\<close>

theorem operator_new_delete_same_allocator:
  assumes new: "operator_new sz s = (raw, s1)"
    and mr: "mr = (case current_frame_allocator s of None \<Rightarrow> get_default_resource | Some m \<Rightarrow> m)"
    and kept: "cells s2 (raw + unat (aligned_offset sz)) = cells s1 (raw + unat (aligned_offset sz))"
  shows "events s1 = events s @ [Allocate mr raw (aligned_offset sz + sizeof_ptr) alignof_max_align_t]
       \<and> cells s1 (raw + unat (aligned_offset sz)) = Some mr
       \<and> unat ptr_alignment dvd unat (aligned_offset sz)
       \<and> (unat sz \<le> 2 ^ 64 - 8 \<longrightarrow>
            unat sz \<le> unat (aligned_offset sz) \<and> unat (aligned_offset sz) < unat sz + unat ptr_alignment)
       \<and> operator_delete raw sz s2 =
            Inr (s2\<lparr>events := events s2 @
                   [Deallocate mr raw (aligned_offset sz + sizeof_ptr) alignof_max_align_t]\<rparr>)"
proof -
  from new mr
  have ev: "events s1 = events s @ [Allocate mr raw (aligned_offset sz + sizeof_ptr) alignof_max_align_t]"
    and cell: "cells s1 (raw + unat (aligned_offset sz)) = Some mr"
    by (auto simp: operator_new_def allocate_def Let_def)
  have al: "unat ptr_alignment dvd unat (aligned_offset sz)"
    using aligned_offset_dvd [of sz] by (simp add: ptr_alignment_def)
  have after: "unat sz \<le> 2 ^ 64 - 8 \<longrightarrow>
            unat sz \<le> unat (aligned_offset sz) \<and> unat (aligned_offset sz) < unat sz + unat ptr_alignment"
    using aligned_offset_after [of sz] by (simp add: ptr_alignment_def)
  from kept cell
  have del: "operator_delete raw sz s2 =
            Inr (s2\<lparr>events := events s2 @
                   [Deallocate mr raw (aligned_offset sz + sizeof_ptr) alignof_max_align_t]\<rparr>)"
    by (simp add: operator_delete_def deallocate_def Let_def)
  from ev cell al after del show ?thesis by blast
qed

theorem operator_new_delete_witness:
  "fst (operator_new 93 (initial_state\<lparr>current_frame_allocator := Some 7\<rparr>)) = 0
   \<and> map_sum id events
        (operator_delete 0 93
          ((snd (operator_new 93 (initial_state\<lparr>current_frame_allocator := Some 7\<rparr>)))
             \<lparr>current_frame_allocator := Some 9\<rparr>))
       = Inr [Allocate 7 0 104 16, Deallocate 7 0 104 16]
   \<and> unat (93 :: size_t) \<le> unat (aligned_offset 93)"
proof -
  define s where "s = initial_state\<lparr>current_frame_allocator := Some 7\<rparr>"
  define s1 where "s1 = snd (operator_new 93 s)"
  define s2 where "s2 = s1\<lparr>current_frame_allocator := Some 9\<rparr>"
  have new: "operator_new 93 s = (0, s1)"
    by (simp add: s1_def s_def operator_new_def allocate_def initial_state_def Let_def
        align_up_def alignof_max_align_t_def)
  have mr: "7 = (case current_frame_allocator s of None \<Rightarrow> get_default_resource | Some m \<Rightarrow> m)"
    by (simp add: s_def)
  have kept: "cells s2 (0 + unat (aligned_offset 93)) = cells s1 (0 + unat (aligned_offset 93))"
    by (simp add: s2_def)
  have small: "unat (93 :: size_t) \<le> 2 ^ 64 - 8"
    by simp
  have off: "aligned_offset 93 + sizeof_ptr = 104"
    by (simp add: aligned_offset_def ptr_alignment_def sizeof_ptr_def)
  have ev: "events s2 = [Allocate 7 0 104 16]"
    using operator_new_delete_same_allocator [OF new mr kept]
    by (simp add: s2_def s_def initial_state_def off alignof_max_align_t_def)
  from operator_new_delete_same_allocator [OF new mr kept] small ev off
  have "map_sum id events (operator_delete 0 93 s2) = Inr [Allocate 7 0 104 16, Deallocate 7 0 104 16]"
    and "unat (93 :: size_t) \<le> unat (aligned_offset 93)"
    by (simp_all add: alignof_max_align_t_def)
  moreover from new have "fst (operator_new 93 s) = 0"
    by simp
  ultimately show ?thesis
    unfolding s_def s1_def s2_def by blast
qed

subsection \<open>Destruction\<close>

lemma deallocations_append:
  "deallocations p (xs @ ys) = deallocations p xs + deallocations p ys"
  by (induction p xs rule: deallocations.induct) auto

lemma destroyed_only_refl: "destroyed_only s s"
  by (simp add: destroyed_only_def)

lemma destroyed_only_trans:
  assumes "destroyed_only s s1" and "destroyed_only s1 s2"
  shows "destroyed_only s s2"
  unfolding destroyed_only_def
proof (intro conjI allI impI)
  fix a
  show "frames s2 a = None \<or> frames s2 a = frames s a"
    using assms unfolding destroyed_only_def by metis
next
  fix a assume "frames s a = None"
  moreover from this have "frames s1 a = None"
    using assms(1) unfolding destroyed_only_def by metis
  ultimately show "deallocations a (events s2) = deallocations a (events s)"
    using assms unfolding destroyed_only_def by metis
qed (use assms in \<open>simp_all add: destroyed_only_def\<close>)

lemma operator_delete_effect:
  assumes "operator_delete f sz s = Inr s1"
  shows "\<exists>mr. s1 = s\<lparr>events := events s @ [Deallocate mr f (aligned_offset sz + sizeof_ptr) alignof_max_align_t]\<rparr>"
  using assms by (auto simp: operator_delete_def deallocate_def Let_def split: option.splits)

lemma destroy_destroyed_only:
  "destroy n h s = Inr s1 \<Longrightarrow> destroyed_only s s1"
proof (induction n arbitrary: h s s1)
  case 0
  then show ?case by simp
next
  case (Suc n)
  show ?case
  proof (cases h)
    case Null
    with Suc.prems show ?thesis by simp
  next
    case Noop
    with Suc.prems show ?thesis by (simp add: destroyed_only_refl)
  next
    case (Frame f)
    from Suc.prems Frame obtain fr where fr: "frames s f = Some fr"
      by (auto split: option.splits)
    define s0 where "s0 = s\<lparr>frames := (frames s)(f := None)\<rparr>"
    from Suc.prems Frame fr obtain sa sb where
      tmp: "temporaries_dtor (destroy n) (status fr) s0 = Inr sa"
      and pd: "io_awaitable_support_dtor (destroy n) (promise fr) sa = Inr sb"
      and od: "operator_delete f frame_size sb = Inr s1"
      by (auto simp: s0_def split: status.splits sum.splits)
    have a: "destroyed_only s0 sa"
      using tmp Suc.IH
      by (auto simp: temporaries_dtor_def task_dtor_def destroyed_only_refl
          split: status.splits if_splits)
    have b: "destroyed_only sa sb"
      using pd Suc.IH
      by (auto simp: io_awaitable_support_dtor_def destroyed_only_refl split: if_splits)
    from a b have ab: "destroyed_only s0 sb"
      by (rule destroyed_only_trans)
    from od obtain mr where s1: "s1 = sb\<lparr>events := events sb @ [Deallocate mr f (aligned_offset frame_size + sizeof_ptr) alignof_max_align_t]\<rparr>"
      using operator_delete_effect by blast
    show ?thesis
      using ab fr unfolding destroyed_only_def s1 s0_def
      by (auto simp: deallocations_append) metis
  qed
qed


subsection \<open>Ownership of the coroutine handle\<close>







subsection \<open>What one resumption does\<close>

lemma handle_promise_Frame:
  "handle_promise s (Frame f) = (case frames s f of None \<Rightarrow> Inl UndefinedBehaviour | Some fr \<Rightarrow> Inr (promise fr))"
  by (simp add: handle_promise_def)

lemma final_suspend_slot:
  "final_suspend f s = Inr (h, s1) \<Longrightarrow> current_frame_allocator s1 = current_frame_allocator s"
  by (auto simp: final_suspend_def handle_promise_def put_promise_def set_status_def
      final_awaiter_await_suspend_def continuation_def split: option.splits)

lemma body_raises_slot:
  "body_raises e f s = Inr (h, s1) \<Longrightarrow> current_frame_allocator s1 = current_frame_allocator s"
  by (auto simp: body_raises_def handle_promise_def put_promise_def 
      dest!: final_suspend_slot split: option.splits)

lemma coroutine_call_slot:
  "coroutine_call c s = (t, s1) \<Longrightarrow> current_frame_allocator s1 = current_frame_allocator s"
  by (auto simp: coroutine_call_def operator_new_def allocate_def Let_def)

lemma task_await_suspend_slot:
  "task_await_suspend a h env s = Inr (h1, s1) \<Longrightarrow> current_frame_allocator s1 = current_frame_allocator s"
  by (auto simp: task_await_suspend_def handle_promise_def put_promise_def Let_def
      split: option.splits handle.splits sum.splits)

lemma set_status_slot [simp]:
  "current_frame_allocator (set_status f st s) = current_frame_allocator s"
  by (simp add: set_status_def split: option.splits)

lemma put_promise_slot [simp]:
  "current_frame_allocator (put_promise h p s) = current_frame_allocator s"
  by (simp add: put_promise_def split: option.splits handle.splits)

lemma await_task_slot:
  "run_body (await_task c k) f s = Inr (h, s1) \<Longrightarrow> current_frame_allocator s1 = current_frame_allocator s"
  by (auto simp: transform_awaiter_await_suspend_def task_move_ctor_def
      split: sum.splits prod.splits dest!: task_await_suspend_slot coroutine_call_slot)

lemma await_void_task_slot:
  "run_body (await_void_task c k) f s = Inr (h, s1) \<Longrightarrow> current_frame_allocator s1 = current_frame_allocator s"
  by (auto simp: transform_awaiter_await_suspend_def task_move_ctor_def
      split: sum.splits prod.splits dest!: task_await_suspend_slot coroutine_call_slot)

lemma run_body_slot:
  assumes "run_body b f s = Inr (h, s1)"
    and "frames s f = Some fr"
    and "deref_env s (env_' (promise fr)) = Inr env"
    and "allocator env = None \<or> allocator env = current_frame_allocator s"
  shows "current_frame_allocator s1 = current_frame_allocator s"
  using assms
proof (induction b arbitrary: s)
  case (co_return v)
  then show ?case
    by (auto simp: handle_promise_Frame dest!: final_suspend_slot)
next
  case co_return_void
  then show ?case
    by (auto simp: handle_promise_Frame dest!: final_suspend_slot)
next
  case (throw e)
  from throw.prems(1) show ?case
    by (auto dest!: body_raises_slot)
next
  case (await_environment k)
  then show ?case
    by (auto simp: handle_promise_Frame)
next
  case (await_executor k)
  then show ?case
    by (auto simp: handle_promise_Frame)
next
  case (await_stop_token k)
  then show ?case
    by (auto simp: handle_promise_Frame)
next
  case (await_allocator k)
  then show ?case
    by (auto simp: handle_promise_Frame)
next
  case (await_immediate a k)
  from await_immediate.prems have
    "transform_awaiter_await_resume (\<lambda>s. Inr (immediate_value_await_resume a)) (promise fr) s
       = Inr (s, Inr (immediate_value_await_resume a))"
    by (auto simp: transform_awaiter_await_resume_def environment_def Let_def)
  with await_immediate.prems have "run_body (k (immediate_value_await_resume a)) f s = Inr (h, s1)"
    by (simp add: handle_promise_Frame)
  with await_immediate.IH await_immediate.prems show ?case
    by blast
next
  case (await_task c k)
  from await_task.prems(1) show ?case
    by (rule await_task_slot)
next
  case (await_void_task c k)
  from await_void_task.prems(1) show ?case
    by (rule await_void_task_slot)
next
  case undefined_behaviour
  then show ?case
    by simp
qed

lemma sync_eq:
  "(if fa \<noteq> None \<and> fa \<noteq> current_frame_allocator s then s\<lparr>current_frame_allocator := fa\<rparr> else s)
     = s\<lparr>current_frame_allocator := (case fa of None \<Rightarrow> current_frame_allocator s | Some a \<Rightarrow> Some a)\<rparr>"
  by (cases fa) auto

lemma initial_awaiter_await_resume_eq:
  "initial_awaiter_await_resume p s =
     (case deref_env s (env_' p) of
        Inl e \<Rightarrow> Inl e
      | Inr env \<Rightarrow> Inr (s\<lparr>current_frame_allocator :=
            (case allocator env of None \<Rightarrow> current_frame_allocator s | Some a \<Rightarrow> Some a)\<rparr>))"
proof (cases "deref_env s (env_' p)")
  case (Inl e)
  then show ?thesis
    by (simp add: initial_awaiter_await_resume_def environment_def)
next
  case (Inr env)
  then show ?thesis
    by (cases "allocator env")
      (auto simp: initial_awaiter_await_resume_def environment_def Let_def)
qed

lemma transform_awaiter_await_resume_eq:
  "transform_awaiter_await_resume ar p s =
     (case deref_env s (env_' p) of
        Inl e \<Rightarrow> Inl e
      | Inr env \<Rightarrow>
          Inr (s\<lparr>current_frame_allocator :=
                 (case allocator env of None \<Rightarrow> current_frame_allocator s | Some a \<Rightarrow> Some a)\<rparr>,
               ar (s\<lparr>current_frame_allocator :=
                 (case allocator env of None \<Rightarrow> current_frame_allocator s | Some a \<Rightarrow> Some a)\<rparr>)))"
proof (cases "deref_env s (env_' p)")
  case (Inl e)
  then show ?thesis
    by (simp add: transform_awaiter_await_resume_def environment_def)
next
  case (Inr env)
  then show ?thesis
    by (cases "allocator env")
      (auto simp: transform_awaiter_await_resume_def environment_def Let_def)
qed

lemma deref_env_simps [simp]:
  "deref_env (s\<lparr>current_frame_allocator := x\<rparr>) p = deref_env s p"
  "deref_env (s\<lparr>frames := y\<rparr>) p = deref_env s p"
  "deref_env (set_status f st s) p = deref_env s p"
  "deref_env (put_promise h q s) p = deref_env s p"
  by (simp_all add: deref_env_def set_status_def put_promise_def split: option.splits handle.splits)

lemma run_body_live:
  "run_body b f s = Inr x \<Longrightarrow> frames s f \<noteq> None"
  by (cases b) (auto simp: handle_promise_Frame body_raises_def split: option.splits)

lemma body_raises_live:
  "body_raises e f s = Inr x \<Longrightarrow> frames s f \<noteq> None"
  by (auto simp: handle_promise_Frame body_raises_def split: option.splits)

lemma task_dtor_destroyed_only:
  "task_dtor (destroy n) a s = Inr s1 \<Longrightarrow> destroyed_only s s1"
  by (auto simp: task_dtor_def destroyed_only_refl dest: destroy_destroyed_only split: if_splits)

lemma destroyed_only_deref_env:
  "destroyed_only s s1 \<Longrightarrow> deref_env s1 p = deref_env s p"
  by (simp add: destroyed_only_def deref_env_def split: option.splits)

lemma destroyed_only_live:
  "destroyed_only s s1 \<Longrightarrow> frames s1 f \<noteq> None \<Longrightarrow> frames s1 f = frames s f"
  unfolding destroyed_only_def by metis

lemma frames_set_status:
  "frames s f = Some fr \<Longrightarrow> frames (set_status f st s) = (frames s)(f \<mapsto> fr\<lparr>status := st\<rparr>)"
  by (simp add: set_status_def)

lemma final_suspend_consumes:
  assumes "final_suspend f s = Inr (h, s1)"
    and "frames s g = Some fr" and "frames s1 g = Some fr1"
    and "cont_' (promise fr) \<noteq> Noop" and "cont_' (promise fr1) = Noop"
  shows "g = f \<and> status fr1 = AtFinal \<and> h = cont_' (promise fr)"
  using assms
  by (auto simp: final_suspend_def handle_promise_def put_promise_def set_status_def
      final_awaiter_await_suspend_def continuation_def split: option.splits if_splits)

lemma put_promise_same_cont:
  assumes "frames s f = Some fr0" and "cont_' p = cont_' (promise fr0)"
    and "frames s g = Some fr"
  shows "\<exists>fr2. frames (put_promise (Frame f) p s) g = Some fr2
           \<and> cont_' (promise fr2) = cont_' (promise fr)"
  using assms by (auto simp: put_promise_def)

lemma body_end_consumes:
  assumes fs: "final_suspend f (put_promise (Frame f) p s) = Inr (h, s1)"
    and f: "frames s f = Some fr0" and p: "cont_' p = cont_' (promise fr0)"
    and g: "frames s g = Some fr" and g1: "frames s1 g = Some fr1"
    and c: "cont_' (promise fr) \<noteq> Noop" and c1: "cont_' (promise fr1) = Noop"
  shows "g = f \<and> status fr1 = AtFinal \<and> h = cont_' (promise fr)"
proof -
  from put_promise_same_cont [OF f p g] obtain fr2 where
    "frames (put_promise (Frame f) p s) g = Some fr2"
    and "cont_' (promise fr2) = cont_' (promise fr)"
    by blast
  with final_suspend_consumes [OF fs this(1) g1] c c1 show ?thesis
    by simp
qed

lemma await_suspend_consumes:
  assumes "transform_awaiter_await_suspend (task_await_suspend a) p (Frame f)
             (set_status f st (snd (coroutine_call c s))) = Inr (h, s1)"
    and "a = fst (task_move_ctor (fst (coroutine_call c s)))"
    and "frames s g = Some fr" and "frames s1 g = Some fr1"
    and "cont_' (promise fr) \<noteq> Noop"
  shows "cont_' (promise fr1) \<noteq> Noop"
  using assms
  by (auto simp: transform_awaiter_await_suspend_def task_await_suspend_def handle_promise_def
      put_promise_def set_status_def coroutine_call_def operator_new_def allocate_def Let_def
      task_move_ctor_def get_return_object_def set_continuation_def set_environment_def
      split: option.splits if_splits prod.splits)

lemma run_body_consumes:
  assumes "run_body b f s = Inr (h, s1)"
    and "frames s g = Some fr" and "frames s1 g = Some fr1"
    and "cont_' (promise fr) \<noteq> Noop" and "cont_' (promise fr1) = Noop"
  shows "g = f \<and> status fr1 = AtFinal \<and> h = cont_' (promise fr)"
  using assms
proof (induction b arbitrary: s fr)
  case (co_return v)
  from co_return.prems(1) obtain fr0 where f: "frames s f = Some fr0"
    and fs: "final_suspend f (put_promise (Frame f) (return_value v (promise fr0)) s) = Inr (h, s1)"
    by (auto simp: handle_promise_Frame split: option.splits)
  show ?case
    by (rule body_end_consumes [OF fs f _ co_return.prems(2,3,4,5)])
      (simp add: return_value_def)
next
  case co_return_void
  from co_return_void.prems(1) obtain fr0 where f: "frames s f = Some fr0"
    and fs: "final_suspend f (put_promise (Frame f) (return_void (promise fr0)) s) = Inr (h, s1)"
    by (auto simp: handle_promise_Frame split: option.splits)
  show ?case
    by (rule body_end_consumes [OF fs f _ co_return_void.prems(2,3,4,5)])
      (simp add: return_void_def)
next
  case (throw e)
  from throw.prems(1) obtain fr0 where f: "frames s f = Some fr0"
    and fs: "final_suspend f (put_promise (Frame f) (unhandled_exception e (promise fr0)) s) = Inr (h, s1)"
    by (auto simp: body_raises_def handle_promise_Frame split: option.splits)
  show ?case
    by (rule body_end_consumes [OF fs f _ throw.prems(2,3,4,5)])
      (simp add: unhandled_exception_def)
next
  case (await_environment k)
  from await_environment.prems(1) obtain x where rb: "run_body (k x) f s = Inr (h, s1)"
    by (auto simp: handle_promise_Frame split: option.splits sum.splits)
  from await_environment.IH [OF rangeI rb await_environment.prems(2,3,4,5)] show ?case .
next
  case (await_executor k)
  from await_executor.prems(1) obtain x where rb: "run_body (k x) f s = Inr (h, s1)"
    by (auto simp: handle_promise_Frame split: option.splits sum.splits)
  from await_executor.IH [OF rangeI rb await_executor.prems(2,3,4,5)] show ?case .
next
  case (await_stop_token k)
  from await_stop_token.prems(1) obtain x where rb: "run_body (k x) f s = Inr (h, s1)"
    by (auto simp: handle_promise_Frame split: option.splits sum.splits)
  from await_stop_token.IH [OF rangeI rb await_stop_token.prems(2,3,4,5)] show ?case .
next
  case (await_allocator k)
  from await_allocator.prems(1) obtain x where rb: "run_body (k x) f s = Inr (h, s1)"
    by (auto simp: handle_promise_Frame split: option.splits sum.splits)
  from await_allocator.IH [OF rangeI rb await_allocator.prems(2,3,4,5)] show ?case .
next
  case (await_immediate a k)
  from await_immediate.prems(1) obtain sa where
    rb: "run_body (k (immediate_value_await_resume a)) f sa = Inr (h, s1)"
    and sa: "frames sa = frames s"
    by (auto simp: handle_promise_Frame transform_awaiter_await_resume_eq
        split: option.splits sum.splits)
  from await_immediate.prems(2) sa have "frames sa g = Some fr"
    by simp
  from await_immediate.IH [OF rangeI rb this await_immediate.prems(3,4,5)] show ?case .
next
  case (await_task c k)
  from await_task.prems(1) obtain p where
    "transform_awaiter_await_suspend
        (task_await_suspend (fst (task_move_ctor (fst (coroutine_call c s))))) p (Frame f)
        (set_status f (AwaitingTask (fst (task_move_ctor (fst (coroutine_call c s)))) k)
           (snd (coroutine_call c s))) = Inr (h, s1)"
    by (auto simp: Let_def split: sum.splits prod.splits)
  from await_suspend_consumes [OF this refl await_task.prems(2,3,4)] await_task.prems(5)
  show ?case by simp
next
  case (await_void_task c k)
  from await_void_task.prems(1) obtain p where
    "transform_awaiter_await_suspend
        (task_await_suspend (fst (task_move_ctor (fst (coroutine_call c s))))) p (Frame f)
        (set_status f (AwaitingVoidTask (fst (task_move_ctor (fst (coroutine_call c s)))) k)
           (snd (coroutine_call c s))) = Inr (h, s1)"
    by (auto simp: Let_def split: sum.splits prod.splits)
  from await_suspend_consumes [OF this refl await_void_task.prems(2,3,4)] await_void_task.prems(5)
  show ?case by simp
next
  case undefined_behaviour
  then show ?case
    by simp
qed

lemma final_suspend_new_frame:
  assumes "final_suspend f s = Inr (h, s1)" and "frames s g = None"
  shows "frames s1 g = None"
  using assms
  by (auto simp: final_suspend_def handle_promise_def put_promise_def set_status_def
      final_awaiter_await_suspend_def continuation_def split: option.splits if_splits)

lemma body_end_new_frame:
  assumes "final_suspend f (put_promise (Frame f) p s) = Inr (h, s1)" and "frames s g = None"
  shows "frames s1 g = None"
proof -
  from assms(2) have "frames (put_promise (Frame f) p s) g = None"
    by (auto simp: put_promise_def split: option.splits)
  with assms(1) show ?thesis
    by (rule final_suspend_new_frame)
qed

lemma await_suspend_new_frame:
  assumes "transform_awaiter_await_suspend (task_await_suspend a) p (Frame f)
             (set_status f st (snd (coroutine_call c s))) = Inr (h, s1)"
    and "a = fst (task_move_ctor (fst (coroutine_call c s)))"
    and "frames s g = None" and "frames s1 g = Some fr1"
  shows "cont_' (promise fr1) \<noteq> Noop"
  using assms
  by (auto simp: transform_awaiter_await_suspend_def task_await_suspend_def handle_promise_def
      put_promise_def set_status_def coroutine_call_def operator_new_def allocate_def Let_def
      task_move_ctor_def get_return_object_def set_continuation_def set_environment_def
      split: option.splits if_splits prod.splits)

lemma run_body_new_frame:
  assumes "run_body b f s = Inr (h, s1)"
    and "frames s g = None" and "frames s1 g = Some fr1"
  shows "cont_' (promise fr1) \<noteq> Noop"
  using assms
proof (induction b arbitrary: s)
  case (co_return v)
  from co_return.prems(1) obtain p where
    "final_suspend f (put_promise (Frame f) p s) = Inr (h, s1)"
    by (auto simp: handle_promise_Frame split: option.splits)
  from body_end_new_frame [OF this co_return.prems(2)] co_return.prems(3) show ?case
    by simp
next
  case co_return_void
  from co_return_void.prems(1) obtain p where
    "final_suspend f (put_promise (Frame f) p s) = Inr (h, s1)"
    by (auto simp: handle_promise_Frame split: option.splits)
  from body_end_new_frame [OF this co_return_void.prems(2)] co_return_void.prems(3) show ?case
    by simp
next
  case (throw e)
  from throw.prems(1) obtain p where
    "final_suspend f (put_promise (Frame f) p s) = Inr (h, s1)"
    by (auto simp: body_raises_def handle_promise_Frame split: option.splits)
  from body_end_new_frame [OF this throw.prems(2)] throw.prems(3) show ?case
    by simp
next
  case (await_environment k)
  from await_environment.prems(1) obtain x where rb: "run_body (k x) f s = Inr (h, s1)"
    by (auto simp: handle_promise_Frame split: option.splits sum.splits)
  from await_environment.IH [OF rangeI rb await_environment.prems(2,3)] show ?case .
next
  case (await_executor k)
  from await_executor.prems(1) obtain x where rb: "run_body (k x) f s = Inr (h, s1)"
    by (auto simp: handle_promise_Frame split: option.splits sum.splits)
  from await_executor.IH [OF rangeI rb await_executor.prems(2,3)] show ?case .
next
  case (await_stop_token k)
  from await_stop_token.prems(1) obtain x where rb: "run_body (k x) f s = Inr (h, s1)"
    by (auto simp: handle_promise_Frame split: option.splits sum.splits)
  from await_stop_token.IH [OF rangeI rb await_stop_token.prems(2,3)] show ?case .
next
  case (await_allocator k)
  from await_allocator.prems(1) obtain x where rb: "run_body (k x) f s = Inr (h, s1)"
    by (auto simp: handle_promise_Frame split: option.splits sum.splits)
  from await_allocator.IH [OF rangeI rb await_allocator.prems(2,3)] show ?case .
next
  case (await_immediate a k)
  from await_immediate.prems(1) obtain sa where
    rb: "run_body (k (immediate_value_await_resume a)) f sa = Inr (h, s1)"
    and sa: "frames sa = frames s"
    by (auto simp: handle_promise_Frame transform_awaiter_await_resume_eq
        split: option.splits sum.splits)
  from await_immediate.prems(2) sa have "frames sa g = None"
    by simp
  from await_immediate.IH [OF rangeI rb this await_immediate.prems(3)] show ?case .
next
  case (await_task c k)
  from await_task.prems(1) obtain p where
    "transform_awaiter_await_suspend
        (task_await_suspend (fst (task_move_ctor (fst (coroutine_call c s))))) p (Frame f)
        (set_status f (AwaitingTask (fst (task_move_ctor (fst (coroutine_call c s)))) k)
           (snd (coroutine_call c s))) = Inr (h, s1)"
    by (auto simp: Let_def split: sum.splits prod.splits)
  from await_suspend_new_frame [OF this refl await_task.prems(2,3)]
  show ?case .
next
  case (await_void_task c k)
  from await_void_task.prems(1) obtain p where
    "transform_awaiter_await_suspend
        (task_await_suspend (fst (task_move_ctor (fst (coroutine_call c s))))) p (Frame f)
        (set_status f (AwaitingVoidTask (fst (task_move_ctor (fst (coroutine_call c s)))) k)
           (snd (coroutine_call c s))) = Inr (h, s1)"
    by (auto simp: Let_def split: sum.splits prod.splits)
  from await_suspend_new_frame [OF this refl await_void_task.prems(2,3)]
  show ?case .
next
  case undefined_behaviour
  then show ?case
    by simp
qed

lemma body_raises_consumes:
  assumes "body_raises e f s = Inr (h, s1)"
    and "frames s g = Some fr" and "frames s1 g = Some fr1"
    and "cont_' (promise fr) \<noteq> Noop" and "cont_' (promise fr1) = Noop"
  shows "g = f \<and> status fr1 = AtFinal \<and> h = cont_' (promise fr)"
  using run_body_consumes [of "throw e" f s h s1 g fr fr1] assms by simp

lemma body_raises_new_frame:
  assumes "body_raises e f s = Inr (h, s1)"
    and "frames s g = None" and "frames s1 g = Some fr1"
  shows "cont_' (promise fr1) \<noteq> Noop"
  using run_body_new_frame [of "throw e" f s h s1 g fr1] assms by simp

lemma after_dtor_consumes:
  assumes d: "destroyed_only sa sb"
    and rb: "run_body b f sb = Inr (h, s1)"
    and g: "frames sa g = Some fr" and g1: "frames s1 g = Some fr1"
    and c: "cont_' (promise fr) \<noteq> Noop" and c1: "cont_' (promise fr1) = Noop"
  shows "g = f \<and> status fr1 = AtFinal \<and> h = cont_' (promise fr)"
proof (cases "frames sb g")
  case None
  from run_body_new_frame [OF rb None g1] c1 show ?thesis
    by simp
next
  case (Some fr2)
  with d g have "frames sb g = Some fr"
    using destroyed_only_live [of sa sb g] by simp
  from run_body_consumes [OF rb this g1 c c1] show ?thesis .
qed

lemma entered_eq:
  "(set_status f Running s)\<lparr>current_frame_allocator :=
      (case allocator env of None \<Rightarrow> current_frame_allocator (set_status f Running s)
       | Some a \<Rightarrow> Some a)\<rparr> = entered f env s"
  by (cases "allocator env") (simp_all add: entered_def)

lemma resume_frame_decompose:
  assumes rf: "resume_frame n f s = Inr (h, s1)"
  obtains fr env sb b where "frames s f = Some fr"
    and "deref_env s (env_' (promise fr)) = Inr env"
    and "destroyed_only (entered f env s) sb"
    and "run_body b f sb = Inr (h, s1)"
proof -
  from rf obtain fr where f: "frames s f = Some fr"
    by (auto simp: resume_frame_def split: option.splits)
  have "\<exists>env. deref_env s (env_' (promise fr)) = Inr env"
  proof (cases "deref_env s (env_' (promise fr))")
    case (Inl e)
    with rf f show ?thesis
      by (cases "status fr")
        (simp_all add: resume_frame_def Let_def initial_awaiter_await_resume_eq
          transform_awaiter_await_resume_eq)
  next
    case (Inr env)
    then show ?thesis by blast
  qed
  then obtain env where env: "deref_env s (env_' (promise fr)) = Inr env"
    by blast
  note final = that [OF f env]
  show ?thesis
  proof (cases "status fr")
    case Running
    with rf f show ?thesis by (simp add: resume_frame_def)
  next
    case AtFinal
    with rf f show ?thesis by (simp add: resume_frame_def)
  next
    case (AtInitial b)
    with rf f env have "run_body b f (entered f env s) = Inr (h, s1)"
      by (simp add: resume_frame_def Let_def initial_awaiter_await_resume_eq entered_eq)
    from final [OF destroyed_only_refl this] show ?thesis .
  next
    case (AwaitingTask a k)
    with rf f env obtain sb where d: "task_dtor (destroy n) a (entered f env s) = Inr sb"
      and r: "(case task_await_resume a (entered f env s) of
                  Inr v \<Rightarrow> run_body (k v) f sb
                | Inl (Rethrown e) \<Rightarrow> body_raises e f sb
                | Inl x \<Rightarrow> Inl x) = Inr (h, s1)"
      by (auto simp: resume_frame_def Let_def transform_awaiter_await_resume_eq entered_eq
          split: sum.splits)
    note dd = task_dtor_destroyed_only [OF d]
    show ?thesis
    proof (cases "task_await_resume a (entered f env s)")
      case (Inr v)
      with r have "run_body (k v) f sb = Inr (h, s1)"
        by simp
      from final [OF dd this] show ?thesis .
    next
      case (Inl x)
      with r obtain e where "body_raises e f sb = Inr (h, s1)"
        by (cases x) simp_all
      then have "run_body (throw e) f sb = Inr (h, s1)"
        by simp
      from final [OF dd this] show ?thesis .
    qed
  next
    case (AwaitingVoidTask a k)
    with rf f env obtain sb where d: "task_dtor (destroy n) a (entered f env s) = Inr sb"
      and r: "(case task_await_resume_void a (entered f env s) of
                  Inr v \<Rightarrow> run_body k f sb
                | Inl (Rethrown e) \<Rightarrow> body_raises e f sb
                | Inl x \<Rightarrow> Inl x) = Inr (h, s1)"
      by (auto simp: resume_frame_def Let_def transform_awaiter_await_resume_eq entered_eq
          split: sum.splits)
    note dd = task_dtor_destroyed_only [OF d]
    show ?thesis
    proof (cases "task_await_resume_void a (entered f env s)")
      case (Inr v)
      with r have "run_body k f sb = Inr (h, s1)"
        by simp
      from final [OF dd this] show ?thesis .
    next
      case (Inl x)
      with r obtain e where "body_raises e f sb = Inr (h, s1)"
        by (cases x) simp_all
      then have "run_body (throw e) f sb = Inr (h, s1)"
        by simp
      from final [OF dd this] show ?thesis .
    qed
  qed
qed

lemma frames_entered:
  "frames s f = Some fr \<Longrightarrow> frames (entered f env s) = (frames s)(f \<mapsto> fr\<lparr>status := Running\<rparr>)"
  by (simp add: entered_def set_status_def)

lemma resume_frame_consumes:
  assumes rf: "resume_frame n f s = Inr (h, s1)"
    and g: "frames s g = Some fr" and g1: "frames s1 g = Some fr1"
    and c: "cont_' (promise fr) \<noteq> Noop" and c1: "cont_' (promise fr1) = Noop"
  shows "g = f \<and> status fr1 = AtFinal \<and> h = cont_' (promise fr)"
proof -
  from rf obtain fr0 env sb b where
    f: "frames s f = Some fr0"
    and d: "destroyed_only (entered f env s) sb" and rb: "run_body b f sb = Inr (h, s1)"
    by (rule resume_frame_decompose)
  have "\<exists>fr2. frames (entered f env s) g = Some fr2 \<and> promise fr2 = promise fr"
    using f g by (cases "g = f") (simp_all add: frames_entered)
  then obtain fr2 where g0: "frames (entered f env s) g = Some fr2"
    and p2: "promise fr2 = promise fr"
    by blast
  from c p2 have c2: "cont_' (promise fr2) \<noteq> Noop"
    by simp
  from after_dtor_consumes [OF d rb g0 g1 c2 c1] p2 show ?thesis
    by simp
qed

lemma resume_frame_slot:
  assumes rf: "resume_frame n f s = Inr (h, s1)"
    and fr: "frames s f = Some fr"
    and env: "deref_env s (env_' (promise fr)) = Inr env"
  shows "current_frame_allocator s1 =
           (case allocator env of None \<Rightarrow> current_frame_allocator s | Some a \<Rightarrow> Some a)"
proof -
  from rf obtain fr0 env0 sb b where
    f0: "frames s f = Some fr0"
    and env0: "deref_env s (env_' (promise fr0)) = Inr env0"
    and d: "destroyed_only (entered f env0 s) sb" and rb: "run_body b f sb = Inr (h, s1)"
    by (rule resume_frame_decompose)
  from f0 fr env0 env have same: "fr0 = fr" "env0 = env"
    by simp_all
  from run_body_live [OF rb] d fr have frb: "frames sb f = Some (fr\<lparr>status := Running\<rparr>)"
    using destroyed_only_live [of "entered f env s" sb f] by (simp add: same frames_entered)
  from d env have envb: "deref_env sb (env_' (promise (fr\<lparr>status := Running\<rparr>))) = Inr env"
    by (simp add: destroyed_only_deref_env same entered_def)
  from d have slot: "current_frame_allocator sb =
           (case allocator env of None \<Rightarrow> current_frame_allocator s | Some a \<Rightarrow> Some a)"
    by (simp add: destroyed_only_def same entered_def)
  then have "allocator env = None \<or> allocator env = current_frame_allocator sb"
    by (cases "allocator env") simp_all
  from run_body_slot [OF rb frb envb this] slot show ?thesis
    by simp
qed

subsection \<open>The continuation is consumed once, at the final suspension point\<close>

lemma final_suspend_eq:
  "frames s f = Some fr \<Longrightarrow>
   final_suspend f s =
     Inr (cont_' (promise fr),
          s\<lparr>frames := (frames s)(f \<mapsto> \<lparr>promise = (promise fr)\<lparr>cont_' := Noop\<rparr>, status = AtFinal\<rparr>)\<rparr>)"
  by (cases fr)
    (simp add: final_suspend_def handle_promise_def put_promise_def set_status_def
      final_awaiter_await_suspend_def continuation_def)

lemma resume_frame_AtFinal:
  "frames s f = Some fr \<Longrightarrow> status fr = AtFinal \<Longrightarrow> resume_frame n f s = Inl UndefinedBehaviour"
  by (simp add: resume_frame_def)

text \<open>
  C2. \<open>continuation()\<close> returns the stored handle and leaves the no-op coroutine in the
  field, so a second call returns the no-op coroutine. The final suspension point hands
  the stored handle out as the coroutine to resume next and leaves the frame suspended
  there with the field reset; a frame suspended there cannot be resumed again. And this
  is the only place: whenever one resumption of a coroutine \<open>f\<close> turns the stored
  continuation of a live frame \<open>g\<close> into the no-op coroutine, \<open>g\<close> is \<open>f\<close>, \<open>f\<close> is now at its
  final suspension point, and the handle resumed next is that continuation.
\<close>

theorem continuation_consumed_once:
  "fst (continuation p) = cont_' p
   \<and> cont_' (snd (continuation p)) = Noop
   \<and> fst (continuation (snd (continuation p))) = Noop
   \<and> (frames s f = Some fr \<longrightarrow>
        final_suspend f s =
          Inr (cont_' (promise fr),
               s\<lparr>frames := (frames s)(f \<mapsto> \<lparr>promise = (promise fr)\<lparr>cont_' := Noop\<rparr>,
                                              status = AtFinal\<rparr>)\<rparr>))
   \<and> (frames s f = Some fr \<and> status fr = AtFinal \<longrightarrow>
        resume_frame n f s = Inl UndefinedBehaviour)
   \<and> (resume_frame n f s = Inr (h, s1) \<and> frames s g = Some gr \<and> frames s1 g = Some gr1
        \<and> cont_' (promise gr) \<noteq> Noop \<and> cont_' (promise gr1) = Noop \<longrightarrow>
        g = f \<and> status gr1 = AtFinal \<and> h = cont_' (promise gr))"
proof -
  have c1: "fst (continuation p) = cont_' p"
    and c2: "cont_' (snd (continuation p)) = Noop"
    and c3: "fst (continuation (snd (continuation p))) = Noop"
    by (simp_all add: continuation_def)
  have c4: "frames s f = Some fr \<longrightarrow>
        final_suspend f s =
          Inr (cont_' (promise fr),
               s\<lparr>frames := (frames s)(f \<mapsto> \<lparr>promise = (promise fr)\<lparr>cont_' := Noop\<rparr>,
                                              status = AtFinal\<rparr>)\<rparr>)"
    using final_suspend_eq [of s f fr] by simp
  have c5: "frames s f = Some fr \<and> status fr = AtFinal \<longrightarrow>
        resume_frame n f s = Inl UndefinedBehaviour"
    using resume_frame_AtFinal [of s f fr n] by simp
  have c6: "resume_frame n f s = Inr (h, s1) \<and> frames s g = Some gr \<and> frames s1 g = Some gr1
        \<and> cont_' (promise gr) \<noteq> Noop \<and> cont_' (promise gr1) = Noop \<longrightarrow>
        g = f \<and> status gr1 = AtFinal \<and> h = cont_' (promise gr)"
    using resume_frame_consumes [of n f s h s1 g gr gr1] by simp
  show ?thesis
    by (intro conjI c1 c2 c3 c4 c5 c6)
qed

lemma example_awaiting_eq:
  "example_awaiting =
     \<lparr>frames = [0 \<mapsto> \<lparr>promise = \<lparr>env_' = Some 0, cont_' = Noop, ep_' = None, result_' = None\<rparr>,
                       status = AwaitingTask \<lparr>h_' = Frame 112\<rparr>
                         (\<lambda>a. await_task (compute 7) (\<lambda>b. as_int (a + b) co_return))\<rparr>,
                112 \<mapsto> \<lparr>promise = \<lparr>env_' = Some 0, cont_' = Frame 0, ep_' = None, result_' = None\<rparr>,
                         status = AtInitial (compute 3)\<rparr>],
      envs = [\<lparr>executor = executor_ref_default, stop_token = None, allocator = None\<rparr>],
      current_frame_allocator = None,
      cells = [96 \<mapsto> 0, 208 \<mapsto> 0],
      brk = 216,
      events = [Allocate 0 0 104 16, Allocate 0 112 104 16]\<rparr>"
  by (simp add: example_awaiting_def parent_task_def initial_state_def promise_defs alloc_defs
      task_defs machine_defs layout_defs Let_def fun_upd_twist)

lemma resume_child_example:
  "resume_frame 0 112 example_awaiting =
     Inr (Frame 0,
          example_awaiting\<lparr>frames := (frames example_awaiting)
            (112 \<mapsto> \<lparr>promise = \<lparr>env_' = Some 0, cont_' = Noop, ep_' = None, result_' = Some 31\<rparr>,
                       status = AtFinal\<rparr>)\<rparr>)"
  unfolding example_awaiting_eq
  by (simp add: compute_def int_defs promise_defs task_defs machine_defs Let_def)

theorem continuation_consumed_once_witness:
  "map_option (cont_' \<circ> promise) (frames example_awaiting 112) = Some (Frame 0)
   \<and> map_sum id fst (resume_frame 0 112 example_awaiting) = Inr (Frame 0)
   \<and> map_sum id (\<lambda>r. map_option status (frames (snd r) 112)) (resume_frame 0 112 example_awaiting)
       = Inr (Some AtFinal)
   \<and> map_sum id (\<lambda>r. map_option (cont_' \<circ> promise) (frames (snd r) 112))
        (resume_frame 0 112 example_awaiting) = Inr (Some Noop)"
proof -
  define s1 where "s1 = example_awaiting\<lparr>frames := (frames example_awaiting)
            (112 \<mapsto> \<lparr>promise = \<lparr>env_' = Some 0, cont_' = Noop, ep_' = None, result_' = Some 31\<rparr>,
                       status = AtFinal\<rparr>)\<rparr>"
  define gr where "gr = \<lparr>promise = \<lparr>env_' = Some 0, cont_' = Frame 0, ep_' = None, result_' = None\<rparr>,
                         status = AtInitial (compute 3)\<rparr>"
  define gr1 where "gr1 = \<lparr>promise = \<lparr>env_' = Some 0, cont_' = Noop, ep_' = None, result_' = Some 31\<rparr>,
                       status = AtFinal\<rparr>"
  have rf: "resume_frame 0 112 example_awaiting = Inr (Frame 0, s1)"
    by (simp only: resume_child_example s1_def)
  have g: "frames example_awaiting 112 = Some gr"
    by (simp add: example_awaiting_eq gr_def)
  have g1: "frames s1 112 = Some gr1"
    by (simp add: s1_def gr1_def)
  have c: "cont_' (promise gr) \<noteq> Noop" and c1: "cont_' (promise gr1) = Noop"
    by (simp_all add: gr_def gr1_def)
  from continuation_consumed_once
         [where s = example_awaiting and f = 112 and n = 0 and h = "Frame 0" and ?s1.0 = s1
            and g = 112 and gr = gr and ?gr1.0 = gr1]
    rf g g1 c c1
  have "status gr1 = AtFinal \<and> Frame 0 = cont_' (promise gr)"
    by blast
  with rf g g1 c1 show ?thesis
    by simp
qed

subsection \<open>Who writes the thread-local allocator slot\<close>

lemma operator_delete_slot:
  "operator_delete ptr sz s = Inr s1 \<Longrightarrow> current_frame_allocator s1 = current_frame_allocator s"
  by (auto dest: operator_delete_effect)

lemma destroy_slot:
  "destroy n h s = Inr s1 \<Longrightarrow> current_frame_allocator s1 = current_frame_allocator s"
  by (auto dest: destroy_destroyed_only simp: destroyed_only_def)

text \<open>
  C10. The two \<open>await_resume\<close> members (of the initial awaiter and of
  \<open>transform_awaiter\<close>) assign the slot exactly when the allocator of the environment is
  non-null and differs from the slot, and then assign that allocator; with a null
  allocator they leave the state as it is. \<open>operator new\<close>, \<open>operator delete\<close>,
  \<open>destroy\<close>, the call of a coroutine, \<open>task::await_suspend\<close> and the final suspension
  leave the slot alone. So one resumption of a coroutine, from the resumption point to
  the next suspension, leaves in the slot the allocator of the coroutine's environment
  when that is non-null, and otherwise whatever the slot held before.
\<close>

theorem frame_allocator_slot_writes:
  "(deref_env s (environment p) = Inr env \<longrightarrow>
      initial_awaiter_await_resume p s =
        Inr (if allocator env \<noteq> None \<and> allocator env \<noteq> current_frame_allocator s
             then s\<lparr>current_frame_allocator := allocator env\<rparr> else s)
      \<and> map_sum id fst (transform_awaiter_await_resume ar p s) =
        Inr (if allocator env \<noteq> None \<and> allocator env \<noteq> current_frame_allocator s
             then s\<lparr>current_frame_allocator := allocator env\<rparr> else s))
   \<and> (deref_env s (environment p) = Inr env \<and> allocator env = None \<longrightarrow>
      initial_awaiter_await_resume p s = Inr s
      \<and> map_sum id fst (transform_awaiter_await_resume ar p s) = Inr s)
   \<and> current_frame_allocator (snd (operator_new sz s)) = current_frame_allocator s
   \<and> (operator_delete ptr sz s = Inr s1 \<longrightarrow> current_frame_allocator s1 = current_frame_allocator s)
   \<and> (destroy n h s = Inr s2 \<longrightarrow> current_frame_allocator s2 = current_frame_allocator s)
   \<and> current_frame_allocator (snd (coroutine_call c s)) = current_frame_allocator s
   \<and> (task_await_suspend a h env_ptr s = Inr (h3, s3) \<longrightarrow>
        current_frame_allocator s3 = current_frame_allocator s)
   \<and> (final_suspend f s = Inr (h4, s4) \<longrightarrow> current_frame_allocator s4 = current_frame_allocator s)
   \<and> (resume_frame n f s = Inr (h5, s5) \<and> frames s f = Some fr
        \<and> deref_env s (env_' (promise fr)) = Inr env5 \<longrightarrow>
        current_frame_allocator s5 =
          (case allocator env5 of None \<Rightarrow> current_frame_allocator s | Some m \<Rightarrow> Some m))"
proof -
  have c1: "deref_env s (environment p) = Inr env \<longrightarrow>
      initial_awaiter_await_resume p s =
        Inr (if allocator env \<noteq> None \<and> allocator env \<noteq> current_frame_allocator s
             then s\<lparr>current_frame_allocator := allocator env\<rparr> else s)
      \<and> map_sum id fst (transform_awaiter_await_resume ar p s) =
        Inr (if allocator env \<noteq> None \<and> allocator env \<noteq> current_frame_allocator s
             then s\<lparr>current_frame_allocator := allocator env\<rparr> else s)"
    by (simp add: initial_awaiter_await_resume_def transform_awaiter_await_resume_def Let_def)
  have c2: "deref_env s (environment p) = Inr env \<and> allocator env = None \<longrightarrow>
      initial_awaiter_await_resume p s = Inr s
      \<and> map_sum id fst (transform_awaiter_await_resume ar p s) = Inr s"
    by (simp add: initial_awaiter_await_resume_def transform_awaiter_await_resume_def Let_def)
  have c3: "current_frame_allocator (snd (operator_new sz s)) = current_frame_allocator s"
    by (simp add: operator_new_def allocate_def Let_def)
  have c4: "operator_delete ptr sz s = Inr s1 \<longrightarrow> current_frame_allocator s1 = current_frame_allocator s"
    using operator_delete_slot [of ptr sz s s1] by simp
  have c5: "destroy n h s = Inr s2 \<longrightarrow> current_frame_allocator s2 = current_frame_allocator s"
    using destroy_slot [of n h s s2] by simp
  have c6: "current_frame_allocator (snd (coroutine_call c s)) = current_frame_allocator s"
    using coroutine_call_slot [of c s "fst (coroutine_call c s)" "snd (coroutine_call c s)"]
    by simp
  have c7: "task_await_suspend a h env_ptr s = Inr (h3, s3) \<longrightarrow>
        current_frame_allocator s3 = current_frame_allocator s"
    using task_await_suspend_slot [of a h env_ptr s h3 s3] by simp
  have c8: "final_suspend f s = Inr (h4, s4) \<longrightarrow> current_frame_allocator s4 = current_frame_allocator s"
    using final_suspend_slot [of f s h4 s4] by simp
  have c9: "resume_frame n f s = Inr (h5, s5) \<and> frames s f = Some fr
        \<and> deref_env s (env_' (promise fr)) = Inr env5 \<longrightarrow>
        current_frame_allocator s5 =
          (case allocator env5 of None \<Rightarrow> current_frame_allocator s | Some m \<Rightarrow> Some m)"
    using resume_frame_slot [of n f s h5 s5 fr env5] by simp
  show ?thesis
    by (intro conjI c1 c2 c3 c4 c5 c6 c7 c8 c9)
qed

lemma example_installed_eq:
  "example_installed a slot =
     \<lparr>frames = [0 \<mapsto> \<lparr>promise = \<lparr>env_' = Some 0, cont_' = Noop, ep_' = None, result_' = None\<rparr>,
                       status = AtInitial (co_return 1)\<rparr>],
      envs = [\<lparr>executor = executor_ref_default, stop_token = None, allocator = a\<rparr>],
      current_frame_allocator = slot,
      cells = [96 \<mapsto> 0],
      brk = 104,
      events = [Allocate 0 0 104 16]\<rparr>"
  by (simp add: example_installed_def initial_state_def promise_defs alloc_defs
      task_defs machine_defs layout_defs Let_def)

lemma resume_example_installed:
  "map_sum id (current_frame_allocator \<circ> snd) (resume_frame 0 0 (example_installed a slot))
     = Inr (case a of None \<Rightarrow> slot | Some m \<Rightarrow> Some m)"
  unfolding example_installed_eq
  by (cases a) (simp_all add: promise_defs task_defs machine_defs Let_def)

theorem frame_allocator_slot_witness:
  "map_sum id (current_frame_allocator \<circ> snd)
     (resume_frame 0 0 (example_installed None (Some 7))) = Inr (Some 7)
   \<and> map_sum id (current_frame_allocator \<circ> snd)
     (resume_frame 0 0 (example_installed (Some 3) (Some 7))) = Inr (Some 3)
   \<and> initial_awaiter_await_resume \<lparr>env_' = Some 0, cont_' = Noop, ep_' = None, result_' = None\<rparr>
        (example_installed None (Some 7)) = Inr (example_installed None (Some 7))"
proof -
  define p where "p = \<lparr>env_' = Some 0, cont_' = Noop, ep_' = None, result_' = None\<rparr>"
  define fr where "fr = \<lparr>promise = p, status = AtInitial (co_return 1)\<rparr>"
  define env where "env = \<lparr>executor = executor_ref_default, stop_token = None,
                            allocator = (None :: memory_resource option)\<rparr>"
  have d: "deref_env (example_installed None (Some 7)) (environment p) = Inr env"
    and d5: "deref_env (example_installed None (Some 7)) (env_' (promise fr)) = Inr env"
    and f: "frames (example_installed None (Some 7)) 0 = Some fr"
    and a: "allocator env = None"
    by (simp_all add: example_installed_eq deref_env_def environment_def p_def fr_def env_def)
  obtain h5 s5 where rf: "resume_frame 0 0 (example_installed None (Some 7)) = Inr (h5, s5)"
    using resume_example_installed [of None "Some 7"]
    by (cases "resume_frame 0 0 (example_installed None (Some 7))") auto
  note w = frame_allocator_slot_writes
         [where s = "example_installed None (Some 7)" and p = p and env = env and n = 0
            and f = 0 and ?h5.0 = h5 and ?s5.0 = s5 and fr = fr and ?env5.0 = env]
  from w d a have "initial_awaiter_await_resume p (example_installed None (Some 7))
          = Inr (example_installed None (Some 7))"
    by blast
  moreover from w rf f d5 have "current_frame_allocator s5 =
      (case allocator env of None \<Rightarrow> current_frame_allocator (example_installed None (Some 7))
       | Some m \<Rightarrow> Some m)"
    by blast
  with a have "current_frame_allocator s5 = current_frame_allocator (example_installed None (Some 7))"
    by simp
  ultimately have "initial_awaiter_await_resume p (example_installed None (Some 7))
          = Inr (example_installed None (Some 7))"
    and "current_frame_allocator s5 = current_frame_allocator (example_installed None (Some 7))"
    by simp_all
  with rf resume_example_installed [of "Some 3" "Some 7"] show ?thesis
    by (simp add: p_def example_installed_eq)
qed

subsection \<open>The machine computes what the body computes\<close>

lemma frame_layout:
  "unat (aligned_offset frame_size) = 96"
  "aligned_offset frame_size + sizeof_ptr = 104"
  "unat (aligned_offset frame_size + sizeof_ptr) = 104"
  "unat alignof_max_align_t = 16"
  by (simp_all add: layout_defs)

lemma align_up_ge: "n \<le> align_up 16 n"
proof -
  have "n \<le> (n + 15) div 16 * 16"
    by presburger
  then show ?thesis
    by (simp add: align_up_def)
qed

lemma next_frame_ge: "brk s \<le> next_frame s"
  by (simp add: next_frame_def align_up_ge)

lemma frame_update_all:
  "fr\<lparr>status := st, promise := p\<rparr> = \<lparr>promise = p, status = st\<rparr>"
  "fr\<lparr>promise := p, status := st\<rparr> = \<lparr>promise = p, status = st\<rparr>"
  by (cases fr, simp)+

lemma run_on_co_return:
  assumes "frames s f = Some fr"
  shows "run_on n (co_return v) f s =
           resume n (cont_' (promise fr))
             (s\<lparr>frames := (frames s)(f \<mapsto> \<lparr>promise = finish (Returned v) (promise fr),
                                              status = AtFinal\<rparr>)\<rparr>)"
  using assms
  by (simp add: run_on_def handle_promise_def put_promise_def final_suspend_def set_status_def
      final_awaiter_await_suspend_def continuation_def return_value_def finish_def frame_update_all)

lemma run_on_co_return_void:
  assumes "frames s f = Some fr"
  shows "run_on n co_return_void f s =
           resume n (cont_' (promise fr))
             (s\<lparr>frames := (frames s)(f \<mapsto> \<lparr>promise = finish ReturnedVoid (promise fr),
                                              status = AtFinal\<rparr>)\<rparr>)"
  using assms
  by (simp add: run_on_def handle_promise_def put_promise_def final_suspend_def set_status_def
      final_awaiter_await_suspend_def continuation_def return_void_def finish_def frame_update_all)

lemma run_on_throw:
  assumes "frames s f = Some fr"
  shows "run_on n (throw e) f s =
           resume n (cont_' (promise fr))
             (s\<lparr>frames := (frames s)(f \<mapsto> \<lparr>promise = finish (Raised e) (promise fr),
                                              status = AtFinal\<rparr>)\<rparr>)"
  using assms
  by (simp add: run_on_def body_raises_def handle_promise_def put_promise_def final_suspend_def
      set_status_def final_awaiter_await_suspend_def continuation_def unhandled_exception_def
      finish_def frame_update_all)

lemma run_on_accessors:
  assumes "frames s f = Some fr" and "env_' (promise fr) = Some ea" and "ea < length (envs s)"
  shows "run_on n (await_environment k) f s = run_on n (k (Some ea)) f s"
    and "run_on n (await_executor k1) f s = run_on n (k1 (executor (envs s ! ea))) f s"
    and "run_on n (await_stop_token k2) f s = run_on n (k2 (stop_token (envs s ! ea))) f s"
    and "run_on n (await_allocator k3) f s = run_on n (k3 (allocator (envs s ! ea))) f s"
  using assms by (simp_all add: run_on_def handle_promise_def deref_env_def)

lemma run_on_await_immediate:
  assumes "frames s f = Some fr" and "env_' (promise fr) = Some ea" and "ea < length (envs s)"
    and "in_sync (envs s ! ea) s"
  shows "run_on n (await_immediate a k) f s = run_on n (k (value_' a)) f s"
proof -
  from assms have "transform_awaiter_await_resume
      (\<lambda>s. Inr (immediate_value_await_resume a)) (promise fr) s = Inr (s, Inr (value_' a))"
    by (auto simp: transform_awaiter_await_resume_def environment_def deref_env_def Let_def
        in_sync_def immediate_value_await_resume_def)
  with assms(1) show ?thesis
    by (simp add: run_on_def handle_promise_def)
qed

lemma below_next_frame:
  assumes "frames_below_brk s" and "frames s f = Some fr"
  shows "f \<noteq> next_frame s" and "frames s (next_frame s) = None"
proof -
  from assms have "f < brk s"
    by (auto simp: frames_below_brk_def)
  with next_frame_ge [of s] show "f \<noteq> next_frame s"
    by simp
  show "frames s (next_frame s) = None"
  proof (rule ccontr)
    assume "frames s (next_frame s) \<noteq> None"
    with assms(1) have "next_frame s < brk s"
      by (auto simp: frames_below_brk_def)
    with next_frame_ge [of s] show False
      by simp
  qed
qed

lemma coroutine_call_eq:
  "coroutine_call c s =
     (\<lparr>h_' = Frame (next_frame s)\<rparr>,
      s\<lparr>brk := next_frame s + 104,
        events := events s @ [Allocate (serving s) (next_frame s) 104 16],
        cells := (cells s)(next_frame s + 96 \<mapsto> serving s),
        frames := (frames s)(next_frame s \<mapsto> \<lparr>promise = promise_init, status = AtInitial c\<rparr>)\<rparr>)"
  by (simp add: coroutine_call_def operator_new_def allocate_def Let_def frame_layout
      next_frame_def serving_def get_return_object_def alignof_max_align_t_def)

lemma run_body_await_task:
  assumes "frames s f = Some fr" and "f \<noteq> next_frame s"
  shows "run_body (await_task c k) f s =
     Inr (Frame (next_frame s),
      s\<lparr>brk := next_frame s + 104,
        events := events s @ [Allocate (serving s) (next_frame s) 104 16],
        cells := (cells s)(next_frame s + 96 \<mapsto> serving s),
        frames := (frames s)
          (f \<mapsto> fr\<lparr>status := AwaitingTask \<lparr>h_' = Frame (next_frame s)\<rparr> k\<rparr>,
           next_frame s \<mapsto> \<lparr>promise = \<lparr>env_' = env_' (promise fr), cont_' = Frame f,
                                       ep_' = None, result_' = None\<rparr>,
                           status = AtInitial c\<rparr>)\<rparr>)"
  using assms
  by (simp add: coroutine_call_eq handle_promise_def task_move_ctor_def set_status_def
      transform_awaiter_await_suspend_def task_await_suspend_def put_promise_def
      set_continuation_def set_environment_def environment_def promise_init_def Let_def
      fun_upd_twist)

lemma entered_in_sync:
  assumes "in_sync env s"
  shows "entered f env s = set_status f Running s"
proof -
  from assms have "(case allocator env of None \<Rightarrow> current_frame_allocator s | Some a \<Rightarrow> Some a)
      = current_frame_allocator (set_status f Running s)"
    by (cases "allocator env") (auto simp: in_sync_def split: option.splits)
  then show ?thesis
    unfolding entered_def by simp
qed

lemma resume_at_initial:
  assumes "frames s g = Some fr" and "status fr = AtInitial b"
    and "deref_env s (env_' (promise fr)) = Inr env"
  shows "resume (Suc n) (Frame g) s = run_on n b g (entered g env s)"
  using assms
  by (simp add: resume_frame_def Let_def initial_awaiter_await_resume_eq entered_eq run_on_def)

lemma destroy_completed_child:
  assumes "frames s c = Some \<lparr>promise = pc, status = AtFinal\<rparr>" and "cont_' pc = Noop"
    and "cells s (c + 96) = Some m"
  shows "destroy (Suc n) (Frame c) s =
           Inr (s\<lparr>frames := (frames s)(c := None), events := events s @ [Deallocate m c 104 16]\<rparr>)"
  using assms
  by (simp add: temporaries_dtor_def io_awaitable_support_dtor_def operator_delete_def
      deallocate_def Let_def frame_layout alignof_max_align_t_def)

lemma resume_after_child:
  assumes f: "frames s f = Some fr" and st: "status fr = AwaitingTask \<lparr>h_' = Frame c\<rparr> k"
    and c: "frames s c = Some \<lparr>promise = pc, status = AtFinal\<rparr>" and pc: "cont_' pc = Noop"
    and ne: "c \<noteq> f" and cell: "cells s (c + 96) = Some m"
    and ea: "env_' (promise fr) = Some ea" "ea < length (envs s)"
    and sync: "in_sync (envs s ! ea) s"
  shows "ep_' pc = None \<Longrightarrow> result_' pc = Some v \<Longrightarrow>
           resume (Suc (Suc n)) (Frame f) s = run_on (Suc n) (k v) f (child_joined f fr c m s)"
    and "ep_' pc = Some e \<Longrightarrow>
           resume (Suc (Suc n)) (Frame f) s = run_on (Suc n) (throw e) f (child_joined f fr c m s)"
proof -
  let ?s0 = "set_status f Running s"
  from ea have env: "deref_env s (env_' (promise fr)) = Inr (envs s ! ea)"
    by (simp add: deref_env_def)
  from sync have ent: "entered f (envs s ! ea) s = ?s0"
    by (rule entered_in_sync)
  from f c ne have c0: "frames ?s0 c = Some \<lparr>promise = pc, status = AtFinal\<rparr>"
    by (simp add: set_status_def)
  from cell have cell0: "cells ?s0 (c + 96) = Some m"
    by (simp add: set_status_def split: option.splits)
  have d: "task_dtor (destroy (Suc n)) \<lparr>h_' = Frame c\<rparr> ?s0 = Inr (child_joined f fr c m s)"
    using destroy_completed_child [OF c0 pc cell0, of n] f
    by (simp add: task_dtor_def child_joined_def set_status_def del: destroy.simps)
  have tr: "transform_awaiter_await_resume ar (promise fr) ?s0 = Inr (?s0, ar ?s0)" for ar :: "state \<Rightarrow> error + int"
    using env ent by (simp add: transform_awaiter_await_resume_eq entered_eq)
  {
    assume "ep_' pc = None" and "result_' pc = Some v"
    with c0 have "task_await_resume \<lparr>h_' = Frame c\<rparr> ?s0 = Inr v"
      by (simp add: task_await_resume_def handle_promise_def result_def)
    with f st tr d show "resume (Suc (Suc n)) (Frame f) s
        = run_on (Suc n) (k v) f (child_joined f fr c m s)"
      by (simp add: resume_frame_def Let_def run_on_def del: destroy.simps)
  }
  {
    assume "ep_' pc = Some e"
    with c0 have "task_await_resume \<lparr>h_' = Frame c\<rparr> ?s0 = Inl (Rethrown e)"
      by (simp add: task_await_resume_def handle_promise_def)
    with f st tr d show "resume (Suc (Suc n)) (Frame f) s
        = run_on (Suc n) (throw e) f (child_joined f fr c m s)"
      by (simp add: resume_frame_def Let_def run_on_def del: destroy.simps)
  }
qed

lemma resume_after_void_child:
  assumes f: "frames s f = Some fr" and st: "status fr = AwaitingVoidTask \<lparr>h_' = Frame c\<rparr> k"
    and c: "frames s c = Some \<lparr>promise = pc, status = AtFinal\<rparr>" and pc: "cont_' pc = Noop"
    and ne: "c \<noteq> f" and cell: "cells s (c + 96) = Some m"
    and ea: "env_' (promise fr) = Some ea" "ea < length (envs s)"
    and sync: "in_sync (envs s ! ea) s"
  shows "ep_' pc = None \<Longrightarrow>
           resume (Suc (Suc n)) (Frame f) s = run_on (Suc n) k f (child_joined f fr c m s)"
    and "ep_' pc = Some e \<Longrightarrow>
           resume (Suc (Suc n)) (Frame f) s = run_on (Suc n) (throw e) f (child_joined f fr c m s)"
proof -
  let ?s0 = "set_status f Running s"
  from ea have env: "deref_env s (env_' (promise fr)) = Inr (envs s ! ea)"
    by (simp add: deref_env_def)
  from sync have ent: "entered f (envs s ! ea) s = ?s0"
    by (rule entered_in_sync)
  from f c ne have c0: "frames ?s0 c = Some \<lparr>promise = pc, status = AtFinal\<rparr>"
    by (simp add: set_status_def)
  from cell have cell0: "cells ?s0 (c + 96) = Some m"
    by (simp add: set_status_def split: option.splits)
  have d: "task_dtor (destroy (Suc n)) \<lparr>h_' = Frame c\<rparr> ?s0 = Inr (child_joined f fr c m s)"
    using destroy_completed_child [OF c0 pc cell0, of n] f
    by (simp add: task_dtor_def child_joined_def set_status_def del: destroy.simps)
  have tr: "transform_awaiter_await_resume ar (promise fr) ?s0 = Inr (?s0, ar ?s0)" for ar :: "state \<Rightarrow> error + unit"
    using env ent by (simp add: transform_awaiter_await_resume_eq entered_eq)
  {
    assume "ep_' pc = None"
    with c0 have "task_await_resume_void \<lparr>h_' = Frame c\<rparr> ?s0 = Inr ()"
      by (simp add: task_await_resume_void_def handle_promise_def)
    with f st tr d show "resume (Suc (Suc n)) (Frame f) s
        = run_on (Suc n) k f (child_joined f fr c m s)"
      by (simp add: resume_frame_def Let_def run_on_def del: destroy.simps)
  }
  {
    assume "ep_' pc = Some e"
    with c0 have "task_await_resume_void \<lparr>h_' = Frame c\<rparr> ?s0 = Inl (Rethrown e)"
      by (simp add: task_await_resume_void_def handle_promise_def)
    with f st tr d show "resume (Suc (Suc n)) (Frame f) s
        = run_on (Suc n) (throw e) f (child_joined f fr c m s)"
      by (simp add: resume_frame_def Let_def run_on_def del: destroy.simps)
  }
qed

lemma grown_refl: "grown m s s"
  by (simp add: grown_def)

lemma grown_frames: "grown m s (s\<lparr>frames := x\<rparr>)"
  by (simp add: grown_def)

lemma grown_trans:
  assumes "grown m s s1" and "grown m s1 s2"
  shows "grown m s s2"
proof -
  from assms obtain e1 e2 where "events s1 = events s @ e1" "list_all (served_by m) e1"
    "events s2 = events s1 @ e2" "list_all (served_by m) e2"
    by (auto simp: grown_def)
  then have "events s2 = events s @ (e1 @ e2) \<and> list_all (served_by m) (e1 @ e2)"
    by simp
  then have "\<exists>evs. events s2 = events s @ evs \<and> list_all (served_by m) evs"
    by blast
  with assms show ?thesis
    by (simp add: grown_def)
qed

lemma grown_serving: "grown m s s1 \<Longrightarrow> serving s1 = serving s"
  by (simp add: grown_def serving_def)

lemma grown_in_sync: "grown m s s1 \<Longrightarrow> in_sync env s1 = in_sync env s"
  by (simp add: grown_def in_sync_def)

lemma child_running_simps:
  "frames (child_running f fr ep st s) =
     (frames s)(f \<mapsto> fr\<lparr>status := st\<rparr>,
        next_frame s \<mapsto> \<lparr>promise = \<lparr>env_' = ep, cont_' = Frame f, ep_' = None, result_' = None\<rparr>,
                        status = Running\<rparr>)"
  "envs (child_running f fr ep st s) = envs s"
  "current_frame_allocator (child_running f fr ep st s) = current_frame_allocator s"
  "brk (child_running f fr ep st s) = next_frame s + 104"
  "cells (child_running f fr ep st s) = (cells s)(next_frame s + 96 \<mapsto> serving s)"
  "events (child_running f fr ep st s) = events s @ [Allocate (serving s) (next_frame s) 104 16]"
  by (simp_all add: child_running_def)

lemma child_joined_simps:
  "frames (child_joined f fr c m s) = (frames s)(f \<mapsto> fr\<lparr>status := Running\<rparr>, c := None)"
  "envs (child_joined f fr c m s) = envs s"
  "current_frame_allocator (child_joined f fr c m s) = current_frame_allocator s"
  "brk (child_joined f fr c m s) = brk s"
  "cells (child_joined f fr c m s) = cells s"
  "events (child_joined f fr c m s) = events s @ [Deallocate m c 104 16]"
  by (simp_all add: child_joined_def)

lemma grown_child_running: "grown (serving s) s (child_running f fr ep st s)"
  using next_frame_ge [of s] by (simp add: grown_def child_running_simps)

lemma grown_child_joined: "grown m s (child_joined f fr c m s)"
  by (simp add: grown_def child_joined_simps)

lemma run_on_await_task:
  assumes below: "frames_below_brk s" and f: "frames s f = Some fr"
    and ea: "env_' (promise fr) = Some ea" "ea < length (envs s)"
    and sync: "in_sync (envs s ! ea) s"
  shows "run_on (Suc n) (await_task c k) f s =
           run_on n c (next_frame s)
             (child_running f fr (Some ea) (AwaitingTask \<lparr>h_' = Frame (next_frame s)\<rparr> k) s)"
proof -
  let ?raw = "next_frame s"
  note ne = below_next_frame [OF below f]
  define s2 where "s2 = s\<lparr>brk := ?raw + 104,
        events := events s @ [Allocate (serving s) ?raw 104 16],
        cells := (cells s)(?raw + 96 \<mapsto> serving s),
        frames := (frames s)
          (f \<mapsto> fr\<lparr>status := AwaitingTask \<lparr>h_' = Frame ?raw\<rparr> k\<rparr>,
           ?raw \<mapsto> \<lparr>promise = \<lparr>env_' = Some ea, cont_' = Frame f, ep_' = None, result_' = None\<rparr>,
                     status = AtInitial c\<rparr>)\<rparr>"
  have rb: "run_body (await_task c k) f s = Inr (Frame ?raw, s2)"
    using run_body_await_task [OF f ne(1), of c k] ea by (simp add: s2_def)
  have fr2: "frames s2 ?raw = Some \<lparr>promise = \<lparr>env_' = Some ea, cont_' = Frame f, ep_' = None, result_' = None\<rparr>,
                     status = AtInitial c\<rparr>"
    by (simp add: s2_def)
  have env2: "deref_env s2 (env_' (promise \<lparr>promise = \<lparr>env_' = Some ea, cont_' = Frame f, ep_' = None, result_' = None\<rparr>,
                     status = AtInitial c\<rparr>)) = Inr (envs s ! ea)"
    using ea by (simp add: deref_env_def s2_def)
  have "in_sync (envs s ! ea) s2"
    using sync by (simp add: in_sync_def s2_def)
  then have ent: "entered ?raw (envs s ! ea) s2 = set_status ?raw Running s2"
    by (rule entered_in_sync)
  have "set_status ?raw Running s2 =
      child_running f fr (Some ea) (AwaitingTask \<lparr>h_' = Frame ?raw\<rparr> k) s"
    by (simp add: s2_def set_status_def child_running_def)
  with ent resume_at_initial [OF fr2 _ env2, of c n] rb show ?thesis
    by (simp add: run_on_def del: resume.simps)
qed

lemma run_on_await_void_task:
  assumes below: "frames_below_brk s" and f: "frames s f = Some fr"
    and ea: "env_' (promise fr) = Some ea" "ea < length (envs s)"
    and sync: "in_sync (envs s ! ea) s"
  shows "run_on (Suc n) (await_void_task c k) f s =
           run_on n c (next_frame s)
             (child_running f fr (Some ea) (AwaitingVoidTask \<lparr>h_' = Frame (next_frame s)\<rparr> k) s)"
proof -
  let ?raw = "next_frame s"
  note ne = below_next_frame [OF below f]
  define s2 where "s2 = s\<lparr>brk := ?raw + 104,
        events := events s @ [Allocate (serving s) ?raw 104 16],
        cells := (cells s)(?raw + 96 \<mapsto> serving s),
        frames := (frames s)
          (f \<mapsto> fr\<lparr>status := AwaitingVoidTask \<lparr>h_' = Frame ?raw\<rparr> k\<rparr>,
           ?raw \<mapsto> \<lparr>promise = \<lparr>env_' = Some ea, cont_' = Frame f, ep_' = None, result_' = None\<rparr>,
                     status = AtInitial c\<rparr>)\<rparr>"
  have rb: "run_body (await_void_task c k) f s = Inr (Frame ?raw, s2)"
    using f ne(1) ea
    by (simp add: s2_def coroutine_call_eq handle_promise_def task_move_ctor_def set_status_def
      transform_awaiter_await_suspend_def task_await_suspend_def put_promise_def
      set_continuation_def set_environment_def environment_def promise_init_def Let_def
      fun_upd_twist)
  have fr2: "frames s2 ?raw = Some \<lparr>promise = \<lparr>env_' = Some ea, cont_' = Frame f, ep_' = None, result_' = None\<rparr>,
                     status = AtInitial c\<rparr>"
    by (simp add: s2_def)
  have env2: "deref_env s2 (env_' (promise \<lparr>promise = \<lparr>env_' = Some ea, cont_' = Frame f, ep_' = None, result_' = None\<rparr>,
                     status = AtInitial c\<rparr>)) = Inr (envs s ! ea)"
    using ea by (simp add: deref_env_def s2_def)
  have "in_sync (envs s ! ea) s2"
    using sync by (simp add: in_sync_def s2_def)
  then have ent: "entered ?raw (envs s ! ea) s2 = set_status ?raw Running s2"
    by (rule entered_in_sync)
  have "set_status ?raw Running s2 =
      child_running f fr (Some ea) (AwaitingVoidTask \<lparr>h_' = Frame ?raw\<rparr> k) s"
    by (simp add: s2_def set_status_def child_running_def)
  with ent resume_at_initial [OF fr2 _ env2, of c n] rb show ?thesis
    by (simp add: run_on_def del: resume.simps)
qed

lemma finish_cont:
  "out \<noteq> Undefined \<Longrightarrow> cont_' (finish out p) = Noop"
  by (cases out) (simp_all add: finish_def)

lemma finish_simps:
  "ep_' (finish (Returned v) p) = ep_' p" "result_' (finish (Returned v) p) = Some v"
  "ep_' (finish ReturnedVoid p) = ep_' p"
  "ep_' (finish (Raised e) p) = Some e"
  by (simp_all add: finish_def)

text \<open>The child has been created and runs.\<close>

lemma child_started:
  assumes below: "frames_below_brk s" and f: "frames s f = Some fr"
    and ea: "ea < length (envs s)" and sync: "in_sync (envs s ! ea) s"
  shows "frames_below_brk (child_running f fr (Some ea) st s)"
    and "frames (child_running f fr (Some ea) st s) (next_frame s) =
           Some \<lparr>promise = \<lparr>env_' = Some ea, cont_' = Frame f, ep_' = None, result_' = None\<rparr>,
                 status = Running\<rparr>"
    and "ea < length (envs (child_running f fr (Some ea) st s))" and "envs (child_running f fr (Some ea) st s) ! ea = envs s ! ea"
    and "in_sync (envs s ! ea) (child_running f fr (Some ea) st s)" and "serving (child_running f fr (Some ea) st s) = serving s"
proof -
  from below have "\<And>a. frames s a \<noteq> None \<Longrightarrow> a < brk s"
    by (simp add: frames_below_brk_def)
  with f next_frame_ge [of s] show "frames_below_brk (child_running f fr (Some ea) st s)"
    by (fastforce simp: frames_below_brk_def child_running_simps)
  show "frames (child_running f fr (Some ea) st s) (next_frame s) =
           Some \<lparr>promise = \<lparr>env_' = Some ea, cont_' = Frame f, ep_' = None, result_' = None\<rparr>,
                 status = Running\<rparr>"
    by (simp add: child_running_simps)
  from ea show "ea < length (envs (child_running f fr (Some ea) st s))" and "envs (child_running f fr (Some ea) st s) ! ea = envs s ! ea"
    by (simp_all add: child_running_simps)
  from sync show "in_sync (envs s ! ea) (child_running f fr (Some ea) st s)"
    by (simp add: in_sync_def child_running_simps)
  show "serving (child_running f fr (Some ea) st s) = serving s"
    by (simp add: serving_def child_running_simps)
qed

text \<open>The child has completed; the parent, once resumed, will destroy it.\<close>

lemma child_completed:
  assumes below: "frames_below_brk s" and f: "frames s f = Some fr"
    and ea: "ea < length (envs s)" and sync: "in_sync (envs s ! ea) s"
    and s4: "frames s4 = (frames (child_running f fr (Some ea) st s))
                (next_frame s \<mapsto> \<lparr>promise = pc, status = AtFinal\<rparr>)"
    and g: "grown (serving s) (child_running f fr (Some ea) st s) s4"
  shows "frames s4 f = Some (fr\<lparr>status := st\<rparr>)"
    and "frames s4 (next_frame s) = Some \<lparr>promise = pc, status = AtFinal\<rparr>"
    and "next_frame s \<noteq> f"
    and "cells s4 (next_frame s + 96) = Some (serving s)"
    and "ea < length (envs s4)" and "envs s4 ! ea = envs s ! ea" and "in_sync (envs s ! ea) s4"
proof -
  note ne = below_next_frame [OF below f]
  from ne show "next_frame s \<noteq> f"
    by simp
  with s4 show "frames s4 f = Some (fr\<lparr>status := st\<rparr>)"
    by (simp add: child_running_simps)
  from s4 show "frames s4 (next_frame s) = Some \<lparr>promise = pc, status = AtFinal\<rparr>"
    by simp
  from g have "cells s4 (next_frame s + 96) = cells (child_running f fr (Some ea) st s) (next_frame s + 96)"
    by (simp add: grown_def child_running_simps)
  then show "cells s4 (next_frame s + 96) = Some (serving s)"
    by (simp add: child_running_simps)
  from g ea show "ea < length (envs s4)" and "envs s4 ! ea = envs s ! ea"
    by (simp_all add: grown_def child_running_simps)
  from g sync show "in_sync (envs s ! ea) s4"
    by (simp add: grown_def in_sync_def child_running_simps)
qed

text \<open>The parent goes on without the child.\<close>

lemma child_gone:
  assumes below: "frames_below_brk s" and f: "frames s f = Some fr"
    and ea: "ea < length (envs s)" and sync: "in_sync (envs s ! ea) s"
    and s4: "frames s4 = (frames (child_running f fr (Some ea) st s))
                (next_frame s \<mapsto> \<lparr>promise = pc, status = AtFinal\<rparr>)"
    and g: "grown (serving s) (child_running f fr (Some ea) st s) s4"
  shows "frames (child_joined f (fr\<lparr>status := st\<rparr>) (next_frame s) (serving s) s4) = (frames s)(f \<mapsto> fr\<lparr>status := Running\<rparr>)"
    and "frames_below_brk (child_joined f (fr\<lparr>status := st\<rparr>) (next_frame s) (serving s) s4)"
    and "ea < length (envs (child_joined f (fr\<lparr>status := st\<rparr>) (next_frame s) (serving s) s4))" and "envs (child_joined f (fr\<lparr>status := st\<rparr>) (next_frame s) (serving s) s4) ! ea = envs s ! ea" and "in_sync (envs s ! ea) (child_joined f (fr\<lparr>status := st\<rparr>) (next_frame s) (serving s) s4)"
    and "grown (serving s) s (child_joined f (fr\<lparr>status := st\<rparr>) (next_frame s) (serving s) s4)" and "serving (child_joined f (fr\<lparr>status := st\<rparr>) (next_frame s) (serving s) s4) = serving s"
proof -
  note ne = below_next_frame [OF below f]
  show fr5: "frames (child_joined f (fr\<lparr>status := st\<rparr>) (next_frame s) (serving s) s4) = (frames s)(f \<mapsto> fr\<lparr>status := Running\<rparr>)"
    using ne by (auto simp: child_joined_simps s4 child_running_simps fun_eq_iff)
  have g5: "grown (serving s) s (child_joined f (fr\<lparr>status := st\<rparr>) (next_frame s) (serving s) s4)"
    by (rule grown_trans [OF grown_trans [OF grown_child_running g] grown_child_joined])
  then show "grown (serving s) s (child_joined f (fr\<lparr>status := st\<rparr>) (next_frame s) (serving s) s4)" .
  from g5 show "serving (child_joined f (fr\<lparr>status := st\<rparr>) (next_frame s) (serving s) s4) = serving s"
    by (rule grown_serving)
  from g5 ea show "ea < length (envs (child_joined f (fr\<lparr>status := st\<rparr>) (next_frame s) (serving s) s4))" and "envs (child_joined f (fr\<lparr>status := st\<rparr>) (next_frame s) (serving s) s4) ! ea = envs s ! ea"
    by (simp_all add: grown_def)
  from g5 sync show "in_sync (envs s ! ea) (child_joined f (fr\<lparr>status := st\<rparr>) (next_frame s) (serving s) s4)"
    by (simp add: grown_in_sync)
  from below have "\<And>a. frames s a \<noteq> None \<Longrightarrow> a < brk s"
    by (simp add: frames_below_brk_def)
  moreover from g5 have "brk s \<le> brk (child_joined f (fr\<lparr>status := st\<rparr>) (next_frame s) (serving s) s4)"
    by (simp add: grown_def)
  ultimately show "frames_below_brk (child_joined f (fr\<lparr>status := st\<rparr>) (next_frame s) (serving s) s4)"
    using f by (fastforce simp: frames_below_brk_def fr5)
qed

text \<open>From here on \<open>resume\<close> and \<open>destroy\<close> are unfolded only on demand.\<close>

declare resume.simps [simp del] destroy.simps [simp del]

lemma await_combine:
  assumes start: "\<And>n. run_on (Suc n) b f s = run_on n c raw s3"
    and child: "\<And>n. run_on (Suc n + m1) c raw s3 = resume (Suc n) (Frame f) s4"
    and join: "\<And>n. resume (Suc (Suc n)) (Frame f) s4 = run_on (Suc n) b1 f s5"
    and rest: "\<And>n. run_on (Suc n + m2) b1 f s5 = resume (Suc n) h s6"
  shows "run_on (Suc n + (m1 + m2 + 2)) b f s = resume (Suc n) h s6"
proof -
  have "run_on (Suc n + (m1 + m2 + 2)) b f s = run_on (Suc (Suc (Suc (n + m2)) + m1)) b f s"
    by (simp add: add.commute add.left_commute)
  also have "\<dots> = run_on (Suc (Suc (n + m2)) + m1) c raw s3"
    by (rule start)
  also have "\<dots> = resume (Suc (Suc (n + m2))) (Frame f) s4"
    by (rule child)
  also have "\<dots> = run_on (Suc (n + m2)) b1 f s5"
    by (rule join)
  also have "\<dots> = run_on (Suc n + m2) b1 f s5"
    by simp
  also have "\<dots> = resume (Suc n) h s6"
    by (rule rest)
  finally show ?thesis .
qed

text \<open>
  A running coroutine \<open>f\<close> whose slot is in line with its environment goes on with a
  body \<open>b\<close>: given enough transfers it reaches its final suspension point with the
  completion \<open>eval\<close> gives in its promise, its continuation is what is resumed next,
  every frame created on the way has been destroyed, and all allocation went through
  the allocator serving the state.
\<close>

lemma run_on_completes:
  assumes "eval (Some ea) env b \<noteq> Undefined"
    and "frames_below_brk s" and "frames s f = Some fr"
    and "env_' (promise fr) = Some ea" and "ea < length (envs s)" and "envs s ! ea = env"
    and "in_sync env s"
  shows "\<exists>m s1. (\<forall>n. run_on (Suc n + m) b f s = resume (Suc n) (cont_' (promise fr)) s1)
          \<and> frames s1 = (frames s)(f \<mapsto> \<lparr>promise = finish (eval (Some ea) env b) (promise fr),
                                            status = AtFinal\<rparr>)
          \<and> grown (serving s) s s1"
  using assms
proof (induction b arbitrary: f s fr)
  case (co_return v)
  let ?s1 = "s\<lparr>frames := (frames s)(f \<mapsto> \<lparr>promise = finish (Returned v) (promise fr),
                                              status = AtFinal\<rparr>)\<rparr>"
  have "\<forall>n. run_on (Suc n + 0) (co_return v) f s = resume (Suc n) (cont_' (promise fr)) ?s1"
    using run_on_co_return [OF co_return.prems(3)] by simp
  moreover have "frames ?s1 = (frames s)(f \<mapsto> \<lparr>promise = finish (eval (Some ea) env (co_return v)) (promise fr),
                                            status = AtFinal\<rparr>)"
    by simp
  moreover have "grown (serving s) s ?s1"
    by (rule grown_frames)
  ultimately show ?case
    by blast
next
  case co_return_void
  let ?s1 = "s\<lparr>frames := (frames s)(f \<mapsto> \<lparr>promise = finish ReturnedVoid (promise fr),
                                              status = AtFinal\<rparr>)\<rparr>"
  have "\<forall>n. run_on (Suc n + 0) co_return_void f s = resume (Suc n) (cont_' (promise fr)) ?s1"
    using run_on_co_return_void [OF co_return_void.prems(3)] by simp
  moreover have "frames ?s1 = (frames s)(f \<mapsto> \<lparr>promise = finish (eval (Some ea) env co_return_void) (promise fr),
                                            status = AtFinal\<rparr>)"
    by simp
  moreover have "grown (serving s) s ?s1"
    by (rule grown_frames)
  ultimately show ?case
    by blast
next
  case (throw e)
  let ?s1 = "s\<lparr>frames := (frames s)(f \<mapsto> \<lparr>promise = finish (Raised e) (promise fr),
                                              status = AtFinal\<rparr>)\<rparr>"
  have "\<forall>n. run_on (Suc n + 0) (throw e) f s = resume (Suc n) (cont_' (promise fr)) ?s1"
    using run_on_throw [OF throw.prems(3)] by simp
  moreover have "frames ?s1 = (frames s)(f \<mapsto> \<lparr>promise = finish (eval (Some ea) env (throw e)) (promise fr),
                                            status = AtFinal\<rparr>)"
    by simp
  moreover have "grown (serving s) s ?s1"
    by (rule grown_frames)
  ultimately show ?case
    by blast
next
  case (await_environment k)
  note p = await_environment.prems
  from p(1) have ev: "eval (Some ea) env (k (Some ea)) \<noteq> Undefined"
    by simp
  from await_environment.IH [OF rangeI ev p(2-7)]
    run_on_accessors(1) [OF p(3,4,5)]
  show ?case by simp
next
  case (await_executor k)
  note p = await_executor.prems
  from p(1) have ev: "eval (Some ea) env (k (executor env)) \<noteq> Undefined"
    by simp
  from await_executor.IH [OF rangeI ev p(2-7)]
    run_on_accessors(2) [OF p(3,4,5)] p(6)
  show ?case by simp
next
  case (await_stop_token k)
  note p = await_stop_token.prems
  from p(1) have ev: "eval (Some ea) env (k (stop_token env)) \<noteq> Undefined"
    by simp
  from await_stop_token.IH [OF rangeI ev p(2-7)]
    run_on_accessors(3) [OF p(3,4,5)] p(6)
  show ?case by simp
next
  case (await_allocator k)
  note p = await_allocator.prems
  from p(1) have ev: "eval (Some ea) env (k (allocator env)) \<noteq> Undefined"
    by simp
  from await_allocator.IH [OF rangeI ev p(2-7)]
    run_on_accessors(4) [OF p(3,4,5)] p(6)
  show ?case by simp
next
  case (await_immediate a k)
  note p = await_immediate.prems
  from p(1) have ev: "eval (Some ea) env (k (value_' a)) \<noteq> Undefined"
    by simp
  from p(6,7) have sync: "in_sync (envs s ! ea) s"
    by simp
  from await_immediate.IH [OF rangeI ev p(2-7)]
    run_on_await_immediate [OF p(3,4,5) sync]
  show ?case by simp
next
  case (await_task c k)
  note p = await_task.prems
  let ?raw = "next_frame s"
  let ?st = "AwaitingTask \<lparr>h_' = Frame ?raw\<rparr> k"
  let ?s3 = "child_running f fr (Some ea) ?st s"
  let ?pc0 = "\<lparr>env_' = Some ea, cont_' = Frame f, ep_' = None, result_' = None\<rparr>"
  let ?out = "eval (Some ea) env c"
  from p(6,7) have sync: "in_sync (envs s ! ea) s"
    by simp
  from p(1) have outc: "?out \<noteq> Undefined"
    by (auto split: completion.splits)
  note st = child_started [OF p(2,3,5) sync, of ?st]
  from st(4) p(6) have env3: "envs ?s3 ! ea = env"
    by simp
  from st(5) p(6) have sync3: "in_sync env ?s3"
    by simp
  have pc0: "env_' (promise \<lparr>promise = ?pc0, status = Running\<rparr>) = Some ea"
    by simp
  from await_task.IH(1) [OF outc st(1,2) pc0 st(3) env3 sync3]
  obtain m1 s4 where
    all4: "(\<forall>n. run_on (Suc n + m1) c ?raw ?s3
                = resume (Suc n) (cont_' (promise \<lparr>promise = ?pc0, status = Running\<rparr>)) s4)
      \<and> frames s4 = (frames ?s3)(?raw \<mapsto>
            \<lparr>promise = finish ?out (promise \<lparr>promise = ?pc0, status = Running\<rparr>), status = AtFinal\<rparr>)
      \<and> grown (serving ?s3) ?s3 s4"
    by blast
  from all4 have child: "\<And>n. run_on (Suc n + m1) c ?raw ?s3 = resume (Suc n) (Frame f) s4"
    by simp
  from all4 have fr4: "frames s4 = (frames ?s3)(?raw \<mapsto> \<lparr>promise = finish ?out ?pc0, status = AtFinal\<rparr>)"
    by simp
  from all4 have g4: "grown (serving s) ?s3 s4"
    by (simp add: st(6))
  note cc = child_completed [OF p(2,3,5) sync fr4 g4]
  note cg = child_gone [OF p(2,3,5) sync fr4 g4]
  let ?s5 = "child_joined f (fr\<lparr>status := ?st\<rparr>) ?raw (serving s) s4"
  have stat: "status (fr\<lparr>status := ?st\<rparr>) = ?st"
    by simp
  have ea4: "env_' (promise (fr\<lparr>status := ?st\<rparr>)) = Some ea"
    using p(4) by simp
  from cc(6,7) have sync4: "in_sync (envs s4 ! ea) s4"
    by simp
  note join = resume_after_child [OF cc(1) stat cc(2) finish_cont [OF outc] cc(3,4) ea4 cc(5) sync4]
  note start = run_on_await_task [OF p(2,3,4,5) sync, of _ c k]
  have fr5: "frames ?s5 f = Some (fr\<lparr>status := Running\<rparr>)"
    by (simp add: cg(1))
  show ?case
  proof (cases ?out)
    case (Returned v)
    with p(1) have ev: "eval (Some ea) env (k v) \<noteq> Undefined"
      by simp
    have j: "\<And>n. resume (Suc (Suc n)) (Frame f) s4 = run_on (Suc n) (k v) f ?s5"
      by (rule join(1)) (simp_all add: Returned finish_simps)
    from cg(4) p(6) have env5: "envs ?s5 ! ea = env"
      by simp
    from cg(5) p(6) have sync5: "in_sync env ?s5"
      by simp
    have ea5: "env_' (promise (fr\<lparr>status := Running\<rparr>)) = Some ea"
      using p(4) by simp
    from await_task.IH(2) [OF rangeI ev cg(2) fr5 ea5 cg(3) env5 sync5]
    obtain m2 s6 where
      all6: "(\<forall>n. run_on (Suc n + m2) (k v) f ?s5
                  = resume (Suc n) (cont_' (promise (fr\<lparr>status := Running\<rparr>))) s6)
        \<and> frames s6 = (frames ?s5)(f \<mapsto>
              \<lparr>promise = finish (eval (Some ea) env (k v)) (promise (fr\<lparr>status := Running\<rparr>)),
               status = AtFinal\<rparr>)
        \<and> grown (serving ?s5) ?s5 s6"
      by blast
    from all6 have rest: "\<And>n. run_on (Suc n + m2) (k v) f ?s5 = resume (Suc n) (cont_' (promise fr)) s6"
      by simp
    from all6 have fr6: "frames s6 = (frames ?s5)(f \<mapsto> \<lparr>promise = finish (eval (Some ea) env (k v)) (promise fr),
                                            status = AtFinal\<rparr>)"
      by simp
    from all6 have g6: "grown (serving s) ?s5 s6"
      by (simp add: cg(7))
    have "\<forall>n. run_on (Suc n + (m1 + m2 + 2)) (await_task c k) f s
            = resume (Suc n) (cont_' (promise fr)) s6"
      using await_combine [OF start child j rest] by blast
    moreover have "frames s6 = (frames s)(f \<mapsto> \<lparr>promise = finish (eval (Some ea) env (await_task c k)) (promise fr),
                                            status = AtFinal\<rparr>)"
      by (simp add: fr6 cg(1) Returned)
    moreover have "grown (serving s) s s6"
      by (rule grown_trans [OF cg(6) g6])
    ultimately show ?thesis
      by blast
  next
    case (Raised e)
    have j: "\<And>n. resume (Suc (Suc n)) (Frame f) s4 = run_on (Suc n) (throw e) f ?s5"
      by (rule join(2)) (simp_all add: Raised finish_simps)
    let ?s6 = "?s5\<lparr>frames := (frames ?s5)(f \<mapsto> \<lparr>promise = finish (Raised e) (promise fr),
                                              status = AtFinal\<rparr>)\<rparr>"
    have rest: "\<And>n. run_on (Suc n + 0) (throw e) f ?s5 = resume (Suc n) (cont_' (promise fr)) ?s6"
      using run_on_throw [OF fr5] by simp
    have "\<forall>n. run_on (Suc n + (m1 + 0 + 2)) (await_task c k) f s
            = resume (Suc n) (cont_' (promise fr)) ?s6"
      using await_combine [OF start child j rest] by blast
    moreover have "frames ?s6 = (frames s)(f \<mapsto> \<lparr>promise = finish (eval (Some ea) env (await_task c k)) (promise fr),
                                            status = AtFinal\<rparr>)"
      by (simp add: cg(1) Raised)
    moreover have "grown (serving s) s ?s6"
      by (rule grown_trans [OF cg(6) grown_frames])
    ultimately show ?thesis
      by blast
  next
    case ReturnedVoid
    with p(1) show ?thesis by simp
  next
    case Undefined
    with p(1) show ?thesis by simp
  qed
next
  case (await_void_task c k)
  note p = await_void_task.prems
  let ?raw = "next_frame s"
  let ?st = "AwaitingVoidTask \<lparr>h_' = Frame ?raw\<rparr> k"
  let ?s3 = "child_running f fr (Some ea) ?st s"
  let ?pc0 = "\<lparr>env_' = Some ea, cont_' = Frame f, ep_' = None, result_' = None\<rparr>"
  let ?out = "eval (Some ea) env c"
  from p(6,7) have sync: "in_sync (envs s ! ea) s"
    by simp
  from p(1) have outc: "?out \<noteq> Undefined"
    by (auto split: completion.splits)
  note st = child_started [OF p(2,3,5) sync, of ?st]
  from st(4) p(6) have env3: "envs ?s3 ! ea = env"
    by simp
  from st(5) p(6) have sync3: "in_sync env ?s3"
    by simp
  have pc0: "env_' (promise \<lparr>promise = ?pc0, status = Running\<rparr>) = Some ea"
    by simp
  from await_void_task.IH(1) [OF outc st(1,2) pc0 st(3) env3 sync3]
  obtain m1 s4 where
    all4: "(\<forall>n. run_on (Suc n + m1) c ?raw ?s3
                = resume (Suc n) (cont_' (promise \<lparr>promise = ?pc0, status = Running\<rparr>)) s4)
      \<and> frames s4 = (frames ?s3)(?raw \<mapsto>
            \<lparr>promise = finish ?out (promise \<lparr>promise = ?pc0, status = Running\<rparr>), status = AtFinal\<rparr>)
      \<and> grown (serving ?s3) ?s3 s4"
    by blast
  from all4 have child: "\<And>n. run_on (Suc n + m1) c ?raw ?s3 = resume (Suc n) (Frame f) s4"
    by simp
  from all4 have fr4: "frames s4 = (frames ?s3)(?raw \<mapsto> \<lparr>promise = finish ?out ?pc0, status = AtFinal\<rparr>)"
    by simp
  from all4 have g4: "grown (serving s) ?s3 s4"
    by (simp add: st(6))
  note cc = child_completed [OF p(2,3,5) sync fr4 g4]
  note cg = child_gone [OF p(2,3,5) sync fr4 g4]
  let ?s5 = "child_joined f (fr\<lparr>status := ?st\<rparr>) ?raw (serving s) s4"
  have stat: "status (fr\<lparr>status := ?st\<rparr>) = ?st"
    by simp
  have ea4: "env_' (promise (fr\<lparr>status := ?st\<rparr>)) = Some ea"
    using p(4) by simp
  from cc(6,7) have sync4: "in_sync (envs s4 ! ea) s4"
    by simp
  note join = resume_after_void_child [OF cc(1) stat cc(2) finish_cont [OF outc] cc(3,4) ea4 cc(5) sync4]
  note start = run_on_await_void_task [OF p(2,3,4,5) sync, of _ c k]
  have fr5: "frames ?s5 f = Some (fr\<lparr>status := Running\<rparr>)"
    by (simp add: cg(1))
  have goes_on: ?case
    if none: "ep_' (finish ?out ?pc0) = None" and same: "eval (Some ea) env (await_void_task c k) = eval (Some ea) env k"
  proof -
    from p(1) same have ev: "eval (Some ea) env k \<noteq> Undefined"
      by simp
    have j: "\<And>n. resume (Suc (Suc n)) (Frame f) s4 = run_on (Suc n) k f ?s5"
      by (rule join(1)) (rule none)
    from cg(4) p(6) have env5: "envs ?s5 ! ea = env"
      by simp
    from cg(5) p(6) have sync5: "in_sync env ?s5"
      by simp
    have ea5: "env_' (promise (fr\<lparr>status := Running\<rparr>)) = Some ea"
      using p(4) by simp
    from await_void_task.IH(2) [OF ev cg(2) fr5 ea5 cg(3) env5 sync5]
    obtain m2 s6 where
      all6: "(\<forall>n. run_on (Suc n + m2) k f ?s5
                  = resume (Suc n) (cont_' (promise (fr\<lparr>status := Running\<rparr>))) s6)
        \<and> frames s6 = (frames ?s5)(f \<mapsto>
              \<lparr>promise = finish (eval (Some ea) env k) (promise (fr\<lparr>status := Running\<rparr>)),
               status = AtFinal\<rparr>)
        \<and> grown (serving ?s5) ?s5 s6"
      by blast
    from all6 have rest: "\<And>n. run_on (Suc n + m2) k f ?s5 = resume (Suc n) (cont_' (promise fr)) s6"
      by simp
    from all6 have fr6: "frames s6 = (frames ?s5)(f \<mapsto> \<lparr>promise = finish (eval (Some ea) env k) (promise fr),
                                            status = AtFinal\<rparr>)"
      by simp
    from all6 have g6: "grown (serving s) ?s5 s6"
      by (simp add: cg(7))
    have "\<forall>n. run_on (Suc n + (m1 + m2 + 2)) (await_void_task c k) f s
            = resume (Suc n) (cont_' (promise fr)) s6"
      using await_combine [OF start child j rest] by blast
    moreover have "frames s6 = (frames s)(f \<mapsto> \<lparr>promise = finish (eval (Some ea) env (await_void_task c k)) (promise fr),
                                            status = AtFinal\<rparr>)"
      unfolding same by (simp add: fr6 cg(1))
    moreover have "grown (serving s) s s6"
      by (rule grown_trans [OF cg(6) g6])
    ultimately show ?thesis
      by blast
  qed
  show ?case
  proof (cases ?out)
    case (Returned v)
    show ?thesis
      by (rule goes_on) (simp_all add: Returned finish_simps)
  next
    case ReturnedVoid
    show ?thesis
      by (rule goes_on) (simp_all add: ReturnedVoid finish_simps)
  next
    case (Raised e)
    have j: "\<And>n. resume (Suc (Suc n)) (Frame f) s4 = run_on (Suc n) (throw e) f ?s5"
      by (rule join(2)) (simp_all add: Raised finish_simps)
    let ?s6 = "?s5\<lparr>frames := (frames ?s5)(f \<mapsto> \<lparr>promise = finish (Raised e) (promise fr),
                                              status = AtFinal\<rparr>)\<rparr>"
    have rest: "\<And>n. run_on (Suc n + 0) (throw e) f ?s5 = resume (Suc n) (cont_' (promise fr)) ?s6"
      using run_on_throw [OF fr5] by simp
    have "\<forall>n. run_on (Suc n + (m1 + 0 + 2)) (await_void_task c k) f s
            = resume (Suc n) (cont_' (promise fr)) ?s6"
      using await_combine [OF start child j rest] by blast
    moreover have "frames ?s6 = (frames s)(f \<mapsto> \<lparr>promise = finish (eval (Some ea) env (await_void_task c k)) (promise fr),
                                            status = AtFinal\<rparr>)"
      by (simp add: cg(1) Raised)
    moreover have "grown (serving s) s ?s6"
      by (rule grown_trans [OF cg(6) grown_frames])
    ultimately show ?thesis
      by blast
  next
    case Undefined
    with outc show ?thesis by simp
  qed
next
  case undefined_behaviour
  then show ?case
    by simp
qed

lemma entered_simps:
  "envs (entered f env s) = envs s"
  "brk (entered f env s) = brk s"
  "cells (entered f env s) = cells s"
  "events (entered f env s) = events s"
  "current_frame_allocator (entered f env s) =
     (case allocator env of None \<Rightarrow> current_frame_allocator s | Some a \<Rightarrow> Some a)"
  by (simp_all add: entered_def set_status_def split: option.splits)

lemma in_sync_entered: "in_sync env (entered f env s)"
  by (cases "allocator env") (simp_all add: in_sync_def entered_simps)

lemma serving_entered:
  "serving (entered f env s) = (case allocator env of None \<Rightarrow> serving s | Some a \<Rightarrow> a)"
  by (cases "allocator env") (simp_all add: serving_def entered_simps)

lemma frames_below_brk_entered:
  assumes "frames_below_brk s" and "frames s f = Some fr"
  shows "frames_below_brk (entered f env s)"
  using assms by (auto simp: frames_below_brk_def frames_entered entered_simps)

lemma resume_completes:
  assumes below: "frames_below_brk s" and f: "frames s f = Some fr"
    and st: "status fr = AtInitial b"
    and ea: "env_' (promise fr) = Some ea" "ea < length (envs s)" "envs s ! ea = env"
    and ev: "eval (Some ea) env b \<noteq> Undefined"
  shows "\<exists>m s1. (\<forall>n. resume (Suc (Suc n) + m) (Frame f) s = resume (Suc n) (cont_' (promise fr)) s1)
          \<and> frames s1 = (frames s)(f \<mapsto> \<lparr>promise = finish (eval (Some ea) env b) (promise fr),
                                            status = AtFinal\<rparr>)
          \<and> grown (case allocator env of None \<Rightarrow> serving s | Some a \<Rightarrow> a) (entered f env s) s1"
proof -
  let ?s0 = "entered f env s"
  from ea have d: "deref_env s (env_' (promise fr)) = Inr env"
    by (simp add: deref_env_def)
  have f0: "frames ?s0 f = Some (fr\<lparr>status := Running\<rparr>)"
    by (simp add: frames_entered [OF f])
  have ea0: "env_' (promise (fr\<lparr>status := Running\<rparr>)) = Some ea"
    "ea < length (envs ?s0)" "envs ?s0 ! ea = env"
    using ea by (simp_all add: entered_simps)
  from run_on_completes [OF ev frames_below_brk_entered [OF below f] f0 ea0 in_sync_entered]
  obtain m s1 where
    all: "(\<forall>n. run_on (Suc n + m) b f ?s0
                = resume (Suc n) (cont_' (promise (fr\<lparr>status := Running\<rparr>))) s1)
      \<and> frames s1 = (frames ?s0)(f \<mapsto>
            \<lparr>promise = finish (eval (Some ea) env b) (promise (fr\<lparr>status := Running\<rparr>)),
             status = AtFinal\<rparr>)
      \<and> grown (serving ?s0) ?s0 s1"
    by blast
  have "resume (Suc (Suc n) + m) (Frame f) s = resume (Suc n) (cont_' (promise fr)) s1" for n
  proof -
    have "resume (Suc (Suc n) + m) (Frame f) s = resume (Suc (Suc n + m)) (Frame f) s"
      by simp
    also have "\<dots> = run_on (Suc n + m) b f ?s0"
      by (rule resume_at_initial [OF f st d])
    also from all have "\<dots> = resume (Suc n) (cont_' (promise fr)) s1"
      by simp
    finally show ?thesis .
  qed
  moreover from all have "frames s1 = (frames s)(f \<mapsto> \<lparr>promise = finish (eval (Some ea) env b) (promise fr),
                                            status = AtFinal\<rparr>)"
    by (simp add: frames_entered [OF f])
  moreover from all have "grown (case allocator env of None \<Rightarrow> serving s | Some a \<Rightarrow> a) ?s0 s1"
    by (simp add: serving_entered)
  ultimately show ?thesis
    by blast
qed

lemma resume_Noop: "resume (Suc n) Noop s = Inr s"
  by (simp add: resume.simps)

text \<open>What \<open>run_sync\<close> does around \<open>h.resume()\<close>.\<close>

lemma run_sync_resumed:
  assumes t: "h_' t = Frame f" and f: "frames s f = Some fr"
    and r: "resume n (Frame f)
              (put_promise (Frame f) (set_environment (Some (length (envs s))) (promise fr))
                 (s\<lparr>envs := envs s @ [\<lparr>executor = ex, stop_token = token, allocator = None\<rparr>]\<rparr>))
            = Inr s1"
    and f1: "frames s1 f = Some fr1"
  shows "run_sync n ex token t s =
           (case ep_' (promise fr1) of
              Some e \<Rightarrow> Inl (Rethrown e)
            | None \<Rightarrow> (case result_' (promise fr1) of
                         None \<Rightarrow> Inl UndefinedBehaviour | Some v \<Rightarrow> Inr (v, s1)))"
    and "run_sync_void n ex token t s =
           (case ep_' (promise fr1) of
              Some e \<Rightarrow> Inl (Rethrown e)
            | None \<Rightarrow> Inr ((), s1))"
  using assms
  by (simp_all add: run_sync_def run_sync_void_def task_handle_def handle_promise_def Let_def
      task_release_def task_dtor_def exception_def result_def
      split: option.splits)

lemma run_sync_completes:
  assumes below: "frames_below_brk s" and t: "h_' t = Frame f"
    and f: "frames s f = Some fr" and st: "status fr = AtInitial b"
    and p: "promise fr = promise_init"
    and ev: "eval (Some (length (envs s))) \<lparr>executor = ex, stop_token = token, allocator = None\<rparr> b = out"
      "out \<noteq> Undefined"
  shows "\<exists>m s1. \<forall>n.
           run_sync (Suc (Suc n) + m) ex token t s =
             (case out of Returned v \<Rightarrow> Inr (v, s1) | Raised e \<Rightarrow> Inl (Rethrown e)
              | _ \<Rightarrow> Inl UndefinedBehaviour)
           \<and> run_sync_void (Suc (Suc n) + m) ex token t s =
             (case out of Raised e \<Rightarrow> Inl (Rethrown e) | _ \<Rightarrow> Inr ((), s1))"
proof -
  let ?env = "\<lparr>executor = ex, stop_token = token, allocator = None\<rparr>"
  let ?ea = "length (envs s)"
  let ?p2 = "set_environment (Some ?ea) (promise fr)"
  let ?s2 = "put_promise (Frame f) ?p2 (s\<lparr>envs := envs s @ [?env]\<rparr>)"
  let ?fr2 = "fr\<lparr>promise := ?p2\<rparr>"
  have f2: "frames ?s2 f = Some ?fr2"
    using f by (simp add: put_promise_def)
  have fs2: "frames ?s2 = (frames s)(f \<mapsto> ?fr2)"
    using f by (simp add: put_promise_def)
  have below2: "frames_below_brk ?s2"
    using below f by (auto simp: frames_below_brk_def put_promise_def)
  have st2: "status ?fr2 = AtInitial b"
    using st by simp
  have ea2: "env_' (promise ?fr2) = Some ?ea" "?ea < length (envs ?s2)" "envs ?s2 ! ?ea = ?env"
    using f by (simp_all add: set_environment_def put_promise_def)
  from ev have ev2: "eval (Some ?ea) ?env b \<noteq> Undefined"
    by simp
  from resume_completes [OF below2 f2 st2 ea2 ev2]
  obtain m s1 where
    all: "(\<forall>n. resume (Suc (Suc n) + m) (Frame f) ?s2 = resume (Suc n) (cont_' (promise ?fr2)) s1)
      \<and> frames s1 = (frames ?s2)(f \<mapsto> \<lparr>promise = finish (eval (Some ?ea) ?env b) (promise ?fr2),
                                            status = AtFinal\<rparr>)"
    by blast
  have c2: "cont_' (promise ?fr2) = Noop"
    by (simp add: p set_environment_def promise_init_def)
  from all c2 have r: "resume (Suc (Suc n) + m) (Frame f) ?s2 = Inr s1" for n
    by (simp add: resume_Noop)
  from all ev have f1: "frames s1 f = Some \<lparr>promise = finish out (promise ?fr2), status = AtFinal\<rparr>"
    by simp
  have ep: "ep_' (finish c ?p2) = (case c of Raised e \<Rightarrow> Some e | _ \<Rightarrow> None)"
    and res: "result_' (finish c ?p2) = (case c of Returned v \<Rightarrow> Some v | _ \<Rightarrow> None)"
    for c
    by (simp_all add: finish_def p set_environment_def promise_init_def split: completion.splits)
  have "run_sync (Suc (Suc n) + m) ex token t s =
             (case out of Returned v \<Rightarrow> Inr (v, s1) | Raised e \<Rightarrow> Inl (Rethrown e)
              | _ \<Rightarrow> Inl UndefinedBehaviour)
        \<and> run_sync_void (Suc (Suc n) + m) ex token t s =
             (case out of Raised e \<Rightarrow> Inl (Rethrown e) | _ \<Rightarrow> Inr ((), s1))" for n
    using run_sync_resumed [OF t f r [of n] f1] ev(2)
    by (cases out) (auto simp add: ep res split: option.splits)
  then show ?thesis
    by blast
qed

subsection \<open>Examples of deep chains\<close>

lemma example_root_eq:
  "example_root b a slot =
     \<lparr>frames = [0 \<mapsto> \<lparr>promise = \<lparr>env_' = Some 1, cont_' = Noop, ep_' = None, result_' = None\<rparr>,
                       status = AtInitial b\<rparr>],
      envs = [\<lparr>executor = executor_ref_default, stop_token = None, allocator = None\<rparr>,
              \<lparr>executor = executor_ref_of 2 3, stop_token = Some 4, allocator = a\<rparr>],
      current_frame_allocator = slot,
      cells = [96 \<mapsto> 0],
      brk = 104,
      events = [Allocate 0 0 104 16]\<rparr>"
  by (simp add: example_root_def initial_state_def promise_defs alloc_defs
      task_defs machine_defs layout_defs Let_def)

lemma example_root_facts:
  "frames_below_brk (example_root b a slot)"
  "frames (example_root b a slot) 0 =
     Some \<lparr>promise = \<lparr>env_' = Some 1, cont_' = Noop, ep_' = None, result_' = None\<rparr>,
           status = AtInitial b\<rparr>"
  "envs (example_root b a slot) ! 1 =
     \<lparr>executor = executor_ref_of 2 3, stop_token = Some 4, allocator = a\<rparr>"
  "length (envs (example_root b a slot)) = 2"
  "events (example_root b a slot) = [Allocate 0 0 104 16]"
  by (simp_all add: example_root_eq frames_below_brk_def)

lemma eval_nested: "eval (Some 1) env nested = Returned 111"
  by (simp add: nested_def nested_middle_def nested_leaf_def observed_def)

lemma initial_state_call:
  "coroutine_call b initial_state =
     (\<lparr>h_' = Frame 0\<rparr>,
      \<lparr>frames = [0 \<mapsto> \<lparr>promise = promise_init, status = AtInitial b\<rparr>],
       envs = [], current_frame_allocator = None, cells = [96 \<mapsto> 0], brk = 104,
       events = [Allocate 0 0 104 16]\<rparr>)"
  by (simp add: coroutine_call_eq initial_state_def next_frame_def align_up_def serving_def
      get_default_resource_def)

subsection \<open>Failures are captured and observed on demand\<close>

lemma body_raises_eq:
  "frames s f = Some fr \<Longrightarrow>
   run_body (throw e) f s =
     Inr (cont_' (promise fr),
          s\<lparr>frames := (frames s)(f \<mapsto> \<lparr>promise = (promise fr)\<lparr>ep_' := Some e, cont_' := Noop\<rparr>,
                                         status = AtFinal\<rparr>)\<rparr>)"
  by (simp add: body_raises_def handle_promise_def put_promise_def final_suspend_def
      set_status_def final_awaiter_await_suspend_def continuation_def unhandled_exception_def
      frame_update_all)

text \<open>
  C4. A body that raises stores the exception in its promise and hands its continuation
  out like any completed body; nothing is thrown there. The result accessor
  \<open>task::await_resume\<close> rethrows the captured exception if there is one and yields the
  stored result otherwise (nothing for \<open>task<void>\<close>). And \<open>run_sync\<close>, started on a
  fresh coroutine whose body completes with \<open>out\<close>, given enough transfers returns the
  value the body returned, or rethrows the exception the body raised; the \<open>void\<close>
  instance returns nothing, or rethrows.
\<close>

theorem failure_observed_on_demand:
  "(frames s f = Some fr \<longrightarrow>
      run_body (throw e) f s =
        Inr (cont_' (promise fr),
             s\<lparr>frames := (frames s)(f \<mapsto> \<lparr>promise = (promise fr)\<lparr>ep_' := Some e, cont_' := Noop\<rparr>,
                                            status = AtFinal\<rparr>)\<rparr>))
   \<and> (handle_promise s (h_' t) = Inr p \<longrightarrow>
        task_await_resume t s =
          (case ep_' p of
             Some x \<Rightarrow> Inl (Rethrown x)
           | None \<Rightarrow> (case result_' p of None \<Rightarrow> Inl UndefinedBehaviour | Some v \<Rightarrow> Inr v))
        \<and> task_await_resume_void t s =
          (case ep_' p of Some x \<Rightarrow> Inl (Rethrown x) | None \<Rightarrow> Inr ()))
   \<and> (frames_below_brk s \<and> h_' t = Frame f
        \<and> frames s f = Some \<lparr>promise = promise_init, status = AtInitial b\<rparr>
        \<and> eval (Some (length (envs s))) \<lparr>executor = ex, stop_token = token, allocator = None\<rparr> b = out
        \<and> out \<noteq> Undefined \<longrightarrow>
        (\<exists>m s1. \<forall>n.
           run_sync (Suc (Suc n) + m) ex token t s =
             (case out of Returned v \<Rightarrow> Inr (v, s1) | Raised x \<Rightarrow> Inl (Rethrown x)
              | _ \<Rightarrow> Inl UndefinedBehaviour)
           \<and> run_sync_void (Suc (Suc n) + m) ex token t s =
             (case out of Raised x \<Rightarrow> Inl (Rethrown x) | _ \<Rightarrow> Inr ((), s1))))"
proof -
  have c1: "frames s f = Some fr \<longrightarrow>
      run_body (throw e) f s =
        Inr (cont_' (promise fr),
             s\<lparr>frames := (frames s)(f \<mapsto> \<lparr>promise = (promise fr)\<lparr>ep_' := Some e, cont_' := Noop\<rparr>,
                                            status = AtFinal\<rparr>)\<rparr>)"
    using body_raises_eq [of s f fr e] by blast
  have c2: "handle_promise s (h_' t) = Inr p \<longrightarrow>
        task_await_resume t s =
          (case ep_' p of
             Some x \<Rightarrow> Inl (Rethrown x)
           | None \<Rightarrow> (case result_' p of None \<Rightarrow> Inl UndefinedBehaviour | Some v \<Rightarrow> Inr v))
        \<and> task_await_resume_void t s =
          (case ep_' p of Some x \<Rightarrow> Inl (Rethrown x) | None \<Rightarrow> Inr ())"
    by (simp add: task_await_resume_def task_await_resume_void_def result_def
        split: option.splits)
  have c3: "frames_below_brk s \<and> h_' t = Frame f
        \<and> frames s f = Some \<lparr>promise = promise_init, status = AtInitial b\<rparr>
        \<and> eval (Some (length (envs s))) \<lparr>executor = ex, stop_token = token, allocator = None\<rparr> b = out
        \<and> out \<noteq> Undefined \<longrightarrow>
        (\<exists>m s1. \<forall>n.
           run_sync (Suc (Suc n) + m) ex token t s =
             (case out of Returned v \<Rightarrow> Inr (v, s1) | Raised x \<Rightarrow> Inl (Rethrown x)
              | _ \<Rightarrow> Inl UndefinedBehaviour)
           \<and> run_sync_void (Suc (Suc n) + m) ex token t s =
             (case out of Raised x \<Rightarrow> Inl (Rethrown x) | _ \<Rightarrow> Inr ((), s1)))"
  proof (intro impI, elim conjE)
    assume a: "frames_below_brk s" "h_' t = Frame f"
      "frames s f = Some \<lparr>promise = promise_init, status = AtInitial b\<rparr>"
      "eval (Some (length (envs s))) \<lparr>executor = ex, stop_token = token, allocator = None\<rparr> b = out"
      "out \<noteq> Undefined"
    show "\<exists>m s1. \<forall>n.
           run_sync (Suc (Suc n) + m) ex token t s =
             (case out of Returned v \<Rightarrow> Inr (v, s1) | Raised x \<Rightarrow> Inl (Rethrown x)
              | _ \<Rightarrow> Inl UndefinedBehaviour)
           \<and> run_sync_void (Suc (Suc n) + m) ex token t s =
             (case out of Raised x \<Rightarrow> Inl (Rethrown x) | _ \<Rightarrow> Inr ((), s1))"
      by (rule run_sync_completes [OF a(1,2,3) _ _ a(4,5)]) simp_all
  qed
  show ?thesis
    by (intro conjI c1 c2 c3)
qed

theorem failure_observed_on_demand_witness:
  "(\<exists>m. \<forall>n. map_sum id fst
        (run_sync (Suc (Suc n) + m) executor_ref_default None
           (fst (coroutine_call failing_parent initial_state))
           (snd (coroutine_call failing_parent initial_state))) = Inl (Rethrown (Exn 5)))
   \<and> (\<exists>m. \<forall>n. map_sum id fst
        (run_sync (Suc (Suc n) + m) executor_ref_default None
           (fst (coroutine_call parent_task initial_state))
           (snd (coroutine_call parent_task initial_state))) = Inr 102)"
proof -
  let ?env = "\<lparr>executor = executor_ref_default, stop_token = None, allocator = None\<rparr>"
  have facts: "frames_below_brk (snd (coroutine_call b initial_state))"
    "h_' (fst (coroutine_call b initial_state)) = Frame 0"
    "frames (snd (coroutine_call b initial_state)) 0 = Some \<lparr>promise = promise_init, status = AtInitial b\<rparr>"
    "length (envs (snd (coroutine_call b initial_state))) = 0" for b
    by (simp_all add: initial_state_call frames_below_brk_def)
  have e1: "eval (Some (length (envs (snd (coroutine_call failing_parent initial_state))))) ?env
              failing_parent = Raised (Exn 5)"
    by (simp add: failing_parent_def)
  have e2: "eval (Some (length (envs (snd (coroutine_call parent_task initial_state))))) ?env
              parent_task = Returned 102"
    by (simp add: parent_task_def compute_def int_defs)
  from failure_observed_on_demand
         [where s = "snd (coroutine_call failing_parent initial_state)" and f = 0
            and t = "fst (coroutine_call failing_parent initial_state)" and b = failing_parent
            and ex = executor_ref_default and token = None and out = "Raised (Exn 5)"]
    facts [of failing_parent] e1
  obtain m1 s1 where "\<forall>n. run_sync (Suc (Suc n) + m1) executor_ref_default None
           (fst (coroutine_call failing_parent initial_state))
           (snd (coroutine_call failing_parent initial_state)) =
             (case Raised (Exn 5) of Returned v \<Rightarrow> Inr (v, s1) | Raised x \<Rightarrow> Inl (Rethrown x)
              | _ \<Rightarrow> Inl UndefinedBehaviour)"
    by blast
  then have w1: "\<exists>m. \<forall>n. map_sum id fst
        (run_sync (Suc (Suc n) + m) executor_ref_default None
           (fst (coroutine_call failing_parent initial_state))
           (snd (coroutine_call failing_parent initial_state))) = Inl (Rethrown (Exn 5))"
    by (intro exI [of _ m1]) simp
  from failure_observed_on_demand
         [where s = "snd (coroutine_call parent_task initial_state)" and f = 0
            and t = "fst (coroutine_call parent_task initial_state)" and b = parent_task
            and ex = executor_ref_default and token = None and out = "Returned 102"]
    facts [of parent_task] e2
  obtain m2 s2 where "\<forall>n. run_sync (Suc (Suc n) + m2) executor_ref_default None
           (fst (coroutine_call parent_task initial_state))
           (snd (coroutine_call parent_task initial_state)) =
             (case Returned 102 of Returned v \<Rightarrow> Inr (v, s2) | Raised x \<Rightarrow> Inl (Rethrown x)
              | _ \<Rightarrow> Inl UndefinedBehaviour)"
    by blast
  then have w2: "\<exists>m. \<forall>n. map_sum id fst
        (run_sync (Suc (Suc n) + m) executor_ref_default None
           (fst (coroutine_call parent_task initial_state))
           (snd (coroutine_call parent_task initial_state))) = Inr 102"
    by (intro exI [of _ m2]) simp
  from w1 w2 show ?thesis
    by (rule conjI)
qed

subsection \<open>The environment reaches every awaited task\<close>

lemma task_await_suspend_sets:
  assumes "task_await_suspend a cont ep s = Inr (h, s1)"
  shows "h = h_' a \<and> (\<exists>p1. handle_promise s1 (h_' a) = Inr p1 \<and> env_' p1 = ep \<and> cont_' p1 = cont)"
proof (cases "h_' a")
  case Null
  with assms show ?thesis
    by (simp add: task_await_suspend_def handle_promise_def)
next
  case Noop
  with assms show ?thesis
    by (simp add: task_await_suspend_def handle_promise_def)
next
  case (Frame c)
  show ?thesis
  proof (cases "frames s c")
    case None
    with assms Frame show ?thesis
      by (simp add: task_await_suspend_def handle_promise_def)
  next
    case (Some frc)
    with assms Frame have "h = Frame c"
      and "s1 = s\<lparr>frames := (frames s)(c \<mapsto> frc\<lparr>promise := (promise frc)\<lparr>cont_' := cont, env_' := ep\<rparr>\<rparr>)\<rparr>"
      by (auto simp: task_await_suspend_def handle_promise_def put_promise_def Let_def
          set_continuation_def set_environment_def)
    then show ?thesis
      by (simp add: Frame handle_promise_def)
  qed
qed

text \<open>
  C5. \<open>task::await_suspend\<close> stores the environment pointer and the continuation it is
  given in the promise of the awaited task and returns that task's handle;
  \<open>transform_awaiter\<close> gives it the environment pointer of the awaiting promise. So a
  coroutine that awaits a task leaves the child, suspended at its initial suspension
  point, with its own environment pointer. Transitively: a coroutine resumed at its
  initial suspension point, whose environment pointer \<open>ea\<close> names an environment,
  completes (given enough transfers) with what its body computes when every coroutine
  awaited at any depth reads that same pointer and, through it, the same executor, stop
  token and allocator (the reference \<open>eval\<close>); the environments themselves are not
  changed.
\<close>

theorem environment_propagates:
  "(task_await_suspend a cont ep s = Inr (h, s1) \<longrightarrow>
      h = h_' a \<and> (\<exists>p1. handle_promise s1 (h_' a) = Inr p1 \<and> env_' p1 = ep \<and> cont_' p1 = cont))
   \<and> transform_awaiter_await_suspend (task_await_suspend a) p cont s
       = task_await_suspend a cont (env_' p) s
   \<and> (frames s f = Some fr \<and> f \<noteq> next_frame s \<longrightarrow>
        (\<exists>s2 frc. run_body (await_task c k) f s = Inr (Frame (next_frame s), s2)
           \<and> frames s2 (next_frame s) = Some frc
           \<and> env_' (promise frc) = env_' (promise fr)
           \<and> cont_' (promise frc) = Frame f
           \<and> status frc = AtInitial c
           \<and> envs s2 = envs s))
   \<and> (frames_below_brk s \<and> frames s f = Some fr \<and> status fr = AtInitial b
        \<and> env_' (promise fr) = Some ea \<and> ea < length (envs s)
        \<and> eval (Some ea) (envs s ! ea) b \<noteq> Undefined \<longrightarrow>
        (\<exists>m s3. (\<forall>n. resume (Suc (Suc n) + m) (Frame f) s = resume (Suc n) (cont_' (promise fr)) s3)
           \<and> frames s3 = (frames s)(f \<mapsto>
                \<lparr>promise = finish (eval (Some ea) (envs s ! ea) b) (promise fr), status = AtFinal\<rparr>)
           \<and> envs s3 = envs s))"
proof -
  have c1: "task_await_suspend a cont ep s = Inr (h, s1) \<longrightarrow>
      h = h_' a \<and> (\<exists>p1. handle_promise s1 (h_' a) = Inr p1 \<and> env_' p1 = ep \<and> cont_' p1 = cont)"
    using task_await_suspend_sets [of a cont ep s h s1] by blast
  have c2: "transform_awaiter_await_suspend (task_await_suspend a) p cont s
       = task_await_suspend a cont (env_' p) s"
    by (simp add: transform_awaiter_await_suspend_def environment_def)
  have c3: "frames s f = Some fr \<and> f \<noteq> next_frame s \<longrightarrow>
        (\<exists>s2 frc. run_body (await_task c k) f s = Inr (Frame (next_frame s), s2)
           \<and> frames s2 (next_frame s) = Some frc
           \<and> env_' (promise frc) = env_' (promise fr)
           \<and> cont_' (promise frc) = Frame f
           \<and> status frc = AtInitial c
           \<and> envs s2 = envs s)"
  proof (intro impI, elim conjE)
    assume a: "frames s f = Some fr" "f \<noteq> next_frame s"
    show "\<exists>s2 frc. run_body (await_task c k) f s = Inr (Frame (next_frame s), s2)
           \<and> frames s2 (next_frame s) = Some frc
           \<and> env_' (promise frc) = env_' (promise fr)
           \<and> cont_' (promise frc) = Frame f
           \<and> status frc = AtInitial c
           \<and> envs s2 = envs s"
      unfolding run_body_await_task [OF a] by simp
  qed
  have c4: "frames_below_brk s \<and> frames s f = Some fr \<and> status fr = AtInitial b
        \<and> env_' (promise fr) = Some ea \<and> ea < length (envs s)
        \<and> eval (Some ea) (envs s ! ea) b \<noteq> Undefined \<longrightarrow>
        (\<exists>m s3. (\<forall>n. resume (Suc (Suc n) + m) (Frame f) s = resume (Suc n) (cont_' (promise fr)) s3)
           \<and> frames s3 = (frames s)(f \<mapsto>
                \<lparr>promise = finish (eval (Some ea) (envs s ! ea) b) (promise fr), status = AtFinal\<rparr>)
           \<and> envs s3 = envs s)"
  proof (intro impI, elim conjE)
    assume a: "frames_below_brk s" "frames s f = Some fr" "status fr = AtInitial b"
      "env_' (promise fr) = Some ea" "ea < length (envs s)"
      "eval (Some ea) (envs s ! ea) b \<noteq> Undefined"
    from resume_completes [OF a(1,2,3,4,5) refl a(6)]
    obtain m s3 where
      r: "\<forall>n. resume (Suc (Suc n) + m) (Frame f) s = resume (Suc n) (cont_' (promise fr)) s3"
      and fs: "frames s3 = (frames s)(f \<mapsto>
                \<lparr>promise = finish (eval (Some ea) (envs s ! ea) b) (promise fr), status = AtFinal\<rparr>)"
      and g: "grown (case allocator (envs s ! ea) of None \<Rightarrow> serving s | Some a \<Rightarrow> a)
                (entered f (envs s ! ea) s) s3"
      by blast
    from g have "envs s3 = envs s"
      by (simp add: grown_def entered_simps)
    with r fs show "\<exists>m s3. (\<forall>n. resume (Suc (Suc n) + m) (Frame f) s = resume (Suc n) (cont_' (promise fr)) s3)
           \<and> frames s3 = (frames s)(f \<mapsto>
                \<lparr>promise = finish (eval (Some ea) (envs s ! ea) b) (promise fr), status = AtFinal\<rparr>)
           \<and> envs s3 = envs s"
      by blast
  qed
  show ?thesis
    by (intro conjI c1 c2 c3 c4)
qed

theorem environment_propagates_witness:
  "(\<exists>m. \<forall>n. map_sum id (\<lambda>s. map_option (result_' \<circ> promise) (frames s 0))
       (resume (Suc (Suc n) + m) (Frame 0) (example_root nested None None))
     = Inr (Some (Some 111)))
   \<and> (\<exists>s2 frc. run_body (await_task nested_leaf co_return) 0 (example_root nested None None)
          = Inr (Frame 112, s2)
        \<and> frames s2 112 = Some frc \<and> env_' (promise frc) = Some 1 \<and> status frc = AtInitial nested_leaf)
   \<and> (\<exists>s1 p1. task_await_suspend \<lparr>h_' = Frame 0\<rparr> (Frame 8) (Some 0) (example_root nested None None)
          = Inr (Frame 0, s1)
        \<and> handle_promise s1 (Frame 0) = Inr p1 \<and> env_' p1 = Some 0 \<and> cont_' p1 = Frame 8)"
proof -
  let ?s = "example_root nested None None"
  let ?fr = "\<lparr>promise = \<lparr>env_' = Some 1, cont_' = Noop, ep_' = None, result_' = None\<rparr>,
              status = AtInitial nested\<rparr>"
  have ev: "eval (Some 1) (envs ?s ! 1) nested \<noteq> Undefined"
    unfolding eval_nested by simp
  have hyp: "frames_below_brk ?s \<and> frames ?s 0 = Some ?fr \<and> status ?fr = AtInitial nested
        \<and> env_' (promise ?fr) = Some 1 \<and> 1 < length (envs ?s)
        \<and> eval (Some 1) (envs ?s ! 1) nested \<noteq> Undefined"
    using example_root_facts [of nested None None] ev by simp
  note all = environment_propagates
        [where s = ?s and f = 0 and fr = ?fr and b = nested and ea = 1
           and c = nested_leaf and k = co_return
           and a = "\<lparr>h_' = Frame 0\<rparr>" and cont = "Frame 8" and ep = "Some 0"]
  note imp = conjunct2 [OF conjunct2 [OF conjunct2 [OF all]]]
  from mp [OF imp hyp] obtain m s3 where
    r: "\<forall>n. resume (Suc (Suc n) + m) (Frame 0) ?s = resume (Suc n) (cont_' (promise ?fr)) s3"
    and fs: "frames s3 = (frames ?s)(0 \<mapsto>
                \<lparr>promise = finish (eval (Some 1) (envs ?s ! 1) nested) (promise ?fr), status = AtFinal\<rparr>)"
    by blast
  from fs have "map_option (result_' \<circ> promise) (frames s3 0) = Some (Some 111)"
    unfolding eval_nested by (simp add: finish_def)
  with r have "\<forall>n. map_sum id (\<lambda>s. map_option (result_' \<circ> promise) (frames s 0))
       (resume (Suc (Suc n) + m) (Frame 0) ?s) = Inr (Some (Some 111))"
    by (simp add: resume_Noop)
  then have w1: "\<exists>m. \<forall>n. map_sum id (\<lambda>s. map_option (result_' \<circ> promise) (frames s 0))
       (resume (Suc (Suc n) + m) (Frame 0) ?s) = Inr (Some (Some 111))"
    by (rule exI)
  have nf: "next_frame ?s = 112"
    by (simp add: example_root_eq next_frame_def align_up_def)
  have hyp3: "frames ?s 0 = Some ?fr \<and> 0 \<noteq> next_frame ?s"
    using example_root_facts [of nested None None] nf by simp
  from mp [OF conjunct1 [OF conjunct2 [OF conjunct2 [OF all]]] hyp3]
  have w2: "\<exists>s2 frc. run_body (await_task nested_leaf co_return) 0 ?s = Inr (Frame 112, s2)
        \<and> frames s2 112 = Some frc \<and> env_' (promise frc) = Some 1 \<and> status frc = AtInitial nested_leaf"
    unfolding nf by (simp del: run_body.simps) blast
  have "\<exists>s1. task_await_suspend \<lparr>h_' = Frame 0\<rparr> (Frame 8) (Some 0) ?s = Inr (Frame 0, s1)"
    by (simp add: example_root_eq task_await_suspend_def handle_promise_def put_promise_def Let_def)
  then obtain s1 where
    t: "task_await_suspend \<lparr>h_' = Frame 0\<rparr> (Frame 8) (Some 0) ?s = Inr (Frame 0, s1)" ..
  from mp [OF conjunct1 [OF all [where h = "Frame 0" and ?s1.0 = s1]] t]
  have "\<exists>p1. handle_promise s1 (Frame 0) = Inr p1 \<and> env_' p1 = Some 0 \<and> cont_' p1 = Frame 8"
    by simp
  with t have w3: "\<exists>s1 p1. task_await_suspend \<lparr>h_' = Frame 0\<rparr> (Frame 8) (Some 0) ?s = Inr (Frame 0, s1)
        \<and> handle_promise s1 (Frame 0) = Inr p1 \<and> env_' p1 = Some 0 \<and> cont_' p1 = Frame 8"
    by blast
  from w1 w2 w3 show ?thesis
    by (intro conjI)
qed

subsection \<open>The allocator slot follows the environment\<close>

text \<open>
  C7 (amended). When the allocator \<open>a\<close> of the environment of a task is non-null, the slot holds
  \<open>a\<close> after the \<open>await_resume\<close> of the initial awaiter (entry) and after the
  \<open>await_resume\<close> of \<open>transform_awaiter\<close> (resumption of an awaited awaitable), which
  hands the awaitable's own \<open>await_resume\<close> the state so updated; so it does after one
  resumption of a coroutine from any suspension point. Across a chain of any depth: the
  coroutine resumed at its initial suspension point completes (given enough transfers),
  the slot then holds \<open>a\<close>, and every frame of the chain has been allocated from \<open>a\<close> and
  given back to \<open>a\<close>. When the allocator of the environment is null, the two
  \<open>await_resume\<close> members leave the state, and with it the slot, as it was.
\<close>

theorem allocator_resynchronized:
  "(deref_env s (environment p) = Inr env \<and> allocator env = Some a \<longrightarrow>
      map_sum id current_frame_allocator (initial_awaiter_await_resume p s) = Inr (Some a)
      \<and> transform_awaiter_await_resume ar p s
          = Inr (s\<lparr>current_frame_allocator := Some a\<rparr>, ar (s\<lparr>current_frame_allocator := Some a\<rparr>)))
   \<and> (resume_frame n f s = Inr (h, s1) \<and> frames s f = Some fr
        \<and> deref_env s (environment (promise fr)) = Inr env \<and> allocator env = Some a \<longrightarrow>
        current_frame_allocator s1 = Some a)
   \<and> (frames_below_brk s \<and> frames s f = Some fr \<and> status fr = AtInitial b
        \<and> environment (promise fr) = Some ea \<and> ea < length (envs s)
        \<and> allocator (envs s ! ea) = Some a
        \<and> eval (Some ea) (envs s ! ea) b \<noteq> Undefined \<longrightarrow>
        (\<exists>m s2. (\<forall>n. resume (Suc (Suc n) + m) (Frame f) s = resume (Suc n) (cont_' (promise fr)) s2)
           \<and> current_frame_allocator s2 = Some a
           \<and> (\<exists>evs. events s2 = events s @ evs \<and> list_all (served_by a) evs)))
   \<and> (deref_env s (environment p) = Inr env \<and> allocator env = None \<longrightarrow>
        initial_awaiter_await_resume p s = Inr s
        \<and> transform_awaiter_await_resume ar p s = Inr (s, ar s))"
proof -
  have c1: "deref_env s (environment p) = Inr env \<and> allocator env = Some a \<longrightarrow>
      map_sum id current_frame_allocator (initial_awaiter_await_resume p s) = Inr (Some a)
      \<and> transform_awaiter_await_resume ar p s
          = Inr (s\<lparr>current_frame_allocator := Some a\<rparr>, ar (s\<lparr>current_frame_allocator := Some a\<rparr>))"
    by (simp add: initial_awaiter_await_resume_eq transform_awaiter_await_resume_eq environment_def)
  have c2: "resume_frame n f s = Inr (h, s1) \<and> frames s f = Some fr
        \<and> deref_env s (environment (promise fr)) = Inr env \<and> allocator env = Some a \<longrightarrow>
        current_frame_allocator s1 = Some a"
    using resume_frame_slot [of n f s h s1 fr env] by (simp add: environment_def)
  have c3: "frames_below_brk s \<and> frames s f = Some fr \<and> status fr = AtInitial b
        \<and> environment (promise fr) = Some ea \<and> ea < length (envs s)
        \<and> allocator (envs s ! ea) = Some a
        \<and> eval (Some ea) (envs s ! ea) b \<noteq> Undefined \<longrightarrow>
        (\<exists>m s2. (\<forall>n. resume (Suc (Suc n) + m) (Frame f) s = resume (Suc n) (cont_' (promise fr)) s2)
           \<and> current_frame_allocator s2 = Some a
           \<and> (\<exists>evs. events s2 = events s @ evs \<and> list_all (served_by a) evs))"
  proof (intro impI, elim conjE)
    assume a: "frames_below_brk s" "frames s f = Some fr" "status fr = AtInitial b"
      "environment (promise fr) = Some ea" "ea < length (envs s)"
      "eval (Some ea) (envs s ! ea) b \<noteq> Undefined"
      and al: "allocator (envs s ! ea) = Some a"
    from a(4) have ea: "env_' (promise fr) = Some ea"
      by (simp add: environment_def)
    from resume_completes [OF a(1,2,3) ea a(5) refl a(6)]
    obtain m s2 where
      r: "\<forall>n. resume (Suc (Suc n) + m) (Frame f) s = resume (Suc n) (cont_' (promise fr)) s2"
      and g: "grown (case allocator (envs s ! ea) of None \<Rightarrow> serving s | Some a \<Rightarrow> a)
                (entered f (envs s ! ea) s) s2"
      by blast
    from g al have slot: "current_frame_allocator s2 = Some a"
      and evs: "\<exists>evs. events s2 = events s @ evs \<and> list_all (served_by a) evs"
      by (simp_all add: grown_def entered_simps)
    from r slot evs
    show "\<exists>m s2. (\<forall>n. resume (Suc (Suc n) + m) (Frame f) s = resume (Suc n) (cont_' (promise fr)) s2)
           \<and> current_frame_allocator s2 = Some a
           \<and> (\<exists>evs. events s2 = events s @ evs \<and> list_all (served_by a) evs)"
      by blast
  qed
  have c4: "deref_env s (environment p) = Inr env \<and> allocator env = None \<longrightarrow>
        initial_awaiter_await_resume p s = Inr s
        \<and> transform_awaiter_await_resume ar p s = Inr (s, ar s)"
    by (simp add: initial_awaiter_await_resume_def transform_awaiter_await_resume_def Let_def)
  show ?thesis
    by (intro conjI c1 c2 c3 c4)
qed

theorem allocator_resynchronized_witness:
  "\<exists>m. \<forall>n. map_sum id (\<lambda>s. (current_frame_allocator s, list_all (served_by 3) (drop 1 (events s))))
       (resume (Suc (Suc n) + m) (Frame 0) (example_root nested (Some 3) (Some 7)))
     = Inr (Some 3, True)"
proof -
  let ?s = "example_root nested (Some 3) (Some 7)"
  let ?fr = "\<lparr>promise = \<lparr>env_' = Some 1, cont_' = Noop, ep_' = None, result_' = None\<rparr>,
              status = AtInitial nested\<rparr>"
  have ev: "eval (Some 1) (envs ?s ! 1) nested \<noteq> Undefined"
    unfolding eval_nested by simp
  have hyp: "frames_below_brk ?s \<and> frames ?s 0 = Some ?fr \<and> status ?fr = AtInitial nested
        \<and> environment (promise ?fr) = Some 1 \<and> 1 < length (envs ?s)
        \<and> allocator (envs ?s ! 1) = Some 3
        \<and> eval (Some 1) (envs ?s ! 1) nested \<noteq> Undefined"
    using example_root_facts [of nested "Some 3" "Some 7"] ev by (simp add: environment_def)
  note all = allocator_resynchronized
        [where s = ?s and f = 0 and fr = ?fr and b = nested and ea = 1 and a = 3]
  from mp [OF conjunct1 [OF conjunct2 [OF conjunct2 [OF all]]] hyp] obtain m s2 evs where
    r: "\<forall>n. resume (Suc (Suc n) + m) (Frame 0) ?s = resume (Suc n) (cont_' (promise ?fr)) s2"
    and slot: "current_frame_allocator s2 = Some 3"
    and evs: "events s2 = events ?s @ evs" "list_all (served_by 3) evs"
    by blast
  from evs have "list_all (served_by 3) (drop 1 (events s2))"
    by (simp add: example_root_facts)
  with r slot have "\<forall>n. map_sum id (\<lambda>s. (current_frame_allocator s, list_all (served_by 3) (drop 1 (events s))))
       (resume (Suc (Suc n) + m) (Frame 0) ?s) = Inr (Some 3, True)"
    by (simp add: resume_Noop)
  then show ?thesis
    by (rule exI)
qed

text \<open>
  The claim as first stated fails: with a null allocator in the environment and the
  allocator \<open>7\<close> in the slot, the slot still holds \<open>7\<close> after the entry resumption
  and after the resumption of an awaited awaitable; it does not match the environment.
\<close>

theorem allocator_stale_counterexample:
  "map_sum id allocator (deref_env (example_installed None (Some 7)) (Some 0)) = Inr None
   \<and> map_sum id current_frame_allocator
       (initial_awaiter_await_resume \<lparr>env_' = Some 0, cont_' = Noop, ep_' = None, result_' = None\<rparr>
          (example_installed None (Some 7))) = Inr (Some 7)
   \<and> map_sum id (current_frame_allocator \<circ> fst)
       (transform_awaiter_await_resume (\<lambda>s. Inr (5::int))
          \<lparr>env_' = Some 0, cont_' = Noop, ep_' = None, result_' = None\<rparr>
          (example_installed None (Some 7))) = Inr (Some 7)
   \<and> frames (example_installed None (Some 7)) 0
       = Some \<lparr>promise = \<lparr>env_' = Some 0, cont_' = Noop, ep_' = None, result_' = None\<rparr>,
               status = AtInitial (co_return 1)\<rparr>
   \<and> map_sum id (current_frame_allocator \<circ> snd)
       (resume_frame 0 0 (example_installed None (Some 7))) = Inr (Some 7)"
  unfolding example_installed_eq
  by (simp add: promise_defs task_defs machine_defs deref_env_def Let_def
      initial_awaiter_await_resume_def transform_awaiter_await_resume_def)

subsection \<open>Destroying suspended coroutines\<close>
















subsection \<open>Single ownership of the handle\<close>









end
